theory Spec2Isabelle
  imports Main "HOL-Library.Sublist"
begin

section \<open>JavaScript strings\<close>

text \<open>
  The Document and every fragment are JavaScript strings. They are modelled as
  \<^typ>\<open>string\<close>, one \<^typ>\<open>char\<close> per code unit, so the strings of the model
  are the JavaScript strings whose code units lie below 256 (ASCII and the Latin-1
  supplement). The character classes, the case mappings and the URI encoding below are
  those of JavaScript on such strings. A position that JavaScript reports as \<open>-1\<close>
  is \<^const>\<open>None\<close> here.
\<close>

fun indexOf :: "string \<Rightarrow> string \<Rightarrow> nat option" where
  "indexOf [] p = (if p = [] then Some 0 else None)"
| "indexOf (c # cs) p = (if prefix p (c # cs) then Some 0 else map_option Suc (indexOf cs p))"

definition indexOfFrom :: "string \<Rightarrow> string \<Rightarrow> nat \<Rightarrow> nat option" where
  "indexOfFrom s p from = map_option (\<lambda>i. i + from) (indexOf (drop from s) p)"

fun lastIndexOf :: "string \<Rightarrow> string \<Rightarrow> nat option" where
  "lastIndexOf [] p = (if p = [] then Some 0 else None)"
| "lastIndexOf (c # cs) p =
     (case lastIndexOf cs p of
        Some i \<Rightarrow> Some (Suc i)
      | None \<Rightarrow> if prefix p (c # cs) then Some 0 else None)"

definition includes_js :: "string \<Rightarrow> string \<Rightarrow> bool" where
  "includes_js s p = (indexOf s p \<noteq> None)"

definition endsWith :: "string \<Rightarrow> string \<Rightarrow> bool" where
  "endsWith s p = (length p \<le> length s \<and> drop (length s - length p) s = p)"

definition substring :: "string \<Rightarrow> nat \<Rightarrow> nat \<Rightarrow> string" where
  "substring s a b = take (max a b - min a b) (drop (min a b) s)"

text \<open>
  The class \<open>\s\<close>, which is also what \<open>trim\<close> strips: tab, line feed, vertical tab,
  form feed, carriage return, space and the no-break space \<open>U+00A0\<close>. The classes
  \<open>\d\<close> and \<open>\w\<close> are ASCII only.
\<close>

definition isSpace :: "char \<Rightarrow> bool" where
  "isSpace c = (c \<in> set [CHR 0x09, CHR 0x0A, CHR 0x0B, CHR 0x0C, CHR 0x0D, CHR 0x20, CHR 0xA0])"

definition isDigit :: "char \<Rightarrow> bool" where
  "isDigit c = (c \<in> set ''0123456789'')"

definition isWord :: "char \<Rightarrow> bool" where
  "isWord c =
     (c \<in> set ''abcdefghijklmnopqrstuvwxyzABCDEFGHIJKLMNOPQRSTUVWXYZ0123456789_'')"

definition trim :: "string \<Rightarrow> string" where
  "trim s = rev (dropWhile isSpace (rev (dropWhile isSpace s)))"

text \<open>
  The case mappings. Below 256 the letters with a case partner are \<open>a\<close> to \<open>z\<close>
  and the Latin-1 letters \<open>U+00E0\<close> to \<open>U+00FE\<close> without the division sign
  \<open>U+00F7\<close>, each 32 above its capital. \<open>toUpperCase\<close> writes \<open>SS\<close> for the
  sharp s \<open>U+00DF\<close>. Two characters are upper-cased by JavaScript to code units above
  255, the micro sign \<open>U+00B5\<close> and \<open>U+00FF\<close>; \<open>upperCaseInRange\<close> says that a
  string holds neither, and only on such strings is \<open>toUpperCase\<close> the JavaScript
  function (the model leaves the two characters as they are). \<open>toLowerCase\<close> stays
  below 256 on every string of the model.
\<close>

definition latinSmall :: string where
  "latinSmall =
     [CHR 0xE0, CHR 0xE1, CHR 0xE2, CHR 0xE3, CHR 0xE4, CHR 0xE5, CHR 0xE6, CHR 0xE7,
      CHR 0xE8, CHR 0xE9, CHR 0xEA, CHR 0xEB, CHR 0xEC, CHR 0xED, CHR 0xEE, CHR 0xEF,
      CHR 0xF0, CHR 0xF1, CHR 0xF2, CHR 0xF3, CHR 0xF4, CHR 0xF5, CHR 0xF6, CHR 0xF8,
      CHR 0xF9, CHR 0xFA, CHR 0xFB, CHR 0xFC, CHR 0xFD, CHR 0xFE]"

definition latinCapital :: string where
  "latinCapital =
     [CHR 0xC0, CHR 0xC1, CHR 0xC2, CHR 0xC3, CHR 0xC4, CHR 0xC5, CHR 0xC6, CHR 0xC7,
      CHR 0xC8, CHR 0xC9, CHR 0xCA, CHR 0xCB, CHR 0xCC, CHR 0xCD, CHR 0xCE, CHR 0xCF,
      CHR 0xD0, CHR 0xD1, CHR 0xD2, CHR 0xD3, CHR 0xD4, CHR 0xD5, CHR 0xD6, CHR 0xD8,
      CHR 0xD9, CHR 0xDA, CHR 0xDB, CHR 0xDC, CHR 0xDD, CHR 0xDE]"

definition caseTable :: "(char \<times> char) list" where
  "caseTable = zip (''abcdefghijklmnopqrstuvwxyz'' @ latinSmall)
                   (''ABCDEFGHIJKLMNOPQRSTUVWXYZ'' @ latinCapital)"

definition toUpperChar :: "char \<Rightarrow> char" where
  "toUpperChar c = (case map_of caseTable c of Some u \<Rightarrow> u | None \<Rightarrow> c)"

definition lowerTable :: "(char \<times> char) list" where
  "lowerTable = zip (''ABCDEFGHIJKLMNOPQRSTUVWXYZ'' @ latinCapital)
                    (''abcdefghijklmnopqrstuvwxyz'' @ latinSmall)"

definition toLowerChar :: "char \<Rightarrow> char" where
  "toLowerChar c = (case map_of lowerTable c of Some l \<Rightarrow> l | None \<Rightarrow> c)"

definition toUpperCase :: "string \<Rightarrow> string" where
  "toUpperCase s = concat (map (\<lambda>c. if c = CHR 0xDF then ''SS'' else [toUpperChar c]) s)"

definition toLowerCase :: "string \<Rightarrow> string" where
  "toLowerCase s = map toLowerChar s"

definition upperCaseInRange :: "string \<Rightarrow> bool" where
  "upperCaseInRange s = (CHR 0xB5 \<notin> set s \<and> CHR 0xFF \<notin> set s)"

text \<open>
  \<open>String(n)\<close> and \<open>parseInt\<close> on a run of digits. A column count is a
  non-negative integer that JavaScript holds exactly, that is, one below \<open>2^53\<close>
  (\<open>safeInteger\<close>); for these \<open>String(n)\<close> is the plain decimal numeral and
  \<open>parseInt\<close> of a numeral is its value. Beyond that range JavaScript rounds and,
  from \<open>10^21\<close> on, prints an exponent, which the two functions below do not follow.
\<close>

definition safeInteger :: "nat \<Rightarrow> bool" where
  "safeInteger n = (n < 2 ^ 53)"

definition digitChar :: "nat \<Rightarrow> char" where
  "digitChar d = ''0123456789'' ! (d mod 10)"

fun numberToString :: "nat \<Rightarrow> string" where
  "numberToString n =
     (if n < 10 then [digitChar n] else numberToString (n div 10) @ [digitChar (n mod 10)])"

declare numberToString.simps [simp del]

definition digitValue :: "char \<Rightarrow> nat" where
  "digitValue c = (case map_of (zip ''0123456789'' [0 ..< 10]) c of Some d \<Rightarrow> d | None \<Rightarrow> 0)"

definition parseInt :: "string \<Rightarrow> nat" where
  "parseInt ds = foldl (\<lambda>a c. 10 * a + digitValue c) 0 ds"

text \<open>\<open>s.replace(/c/g, r)\<close> for a single character \<open>c\<close>.\<close>

definition replaceAll :: "char \<Rightarrow> string \<Rightarrow> string \<Rightarrow> string" where
  "replaceAll c r s = concat (map (\<lambda>x. if x = c then r else [x]) s)"

definition escapeHtml :: "string \<Rightarrow> string" where
  \<open>escapeHtml s =
     replaceAll (CHR ''"'') ''&quot;''
       (replaceAll (CHR ''>'') ''&gt;''
         (replaceAll (CHR ''<'') ''&lt;''
           (replaceAll (CHR ''&'') ''&amp;'' s)))\<close>

text \<open>
  The reading of the escaping that the specification gives: each of the four characters
  is replaced by its entity, every other character is kept.
\<close>

definition escapeChar :: "char \<Rightarrow> string" where
  \<open>escapeChar c =
     (if c = CHR ''&'' then ''&amp;''
      else if c = CHR ''<'' then ''&lt;''
      else if c = CHR ''>'' then ''&gt;''
      else if c = CHR ''"'' then ''&quot;''
      else [c])\<close>

definition escapedText :: "string \<Rightarrow> string" where
  "escapedText s = concat (map escapeChar s)"

text \<open>
  \<open>encodeURIComponent\<close>: a character of the unreserved set is kept, every other one is
  replaced by the \<open>%XX\<close> escapes of the bytes of its UTF-8 encoding, one byte below 128
  and two bytes from 128 on.
\<close>

definition uriUnreserved :: "char \<Rightarrow> bool" where
  "uriUnreserved c =
     (c \<in> set (''abcdefghijklmnopqrstuvwxyzABCDEFGHIJKLMNOPQRSTUVWXYZ0123456789-_.!~*()''
        @ [CHR 0x27]))"

definition hexDigit :: "nat \<Rightarrow> char" where
  "hexDigit d = ''0123456789ABCDEF'' ! (d mod 16)"

definition percentEscape :: "nat \<Rightarrow> string" where
  "percentEscape b = [CHR ''%'', hexDigit (b div 16), hexDigit (b mod 16)]"

definition encodeChar :: "char \<Rightarrow> string" where
  "encodeChar c =
     (if uriUnreserved c then [c]
      else if (of_char c :: nat) < 128 then percentEscape (of_char c)
      else percentEscape (192 + of_char c div 64) @ percentEscape (128 + of_char c mod 64))"

definition encodeURIComponent :: "string \<Rightarrow> string" where
  "encodeURIComponent s = concat (map encodeChar s)"

section \<open>Data model\<close>

record keyed =
  key :: string
  name :: string

record container = keyed +
  columns :: nat

record category = keyed +
  description :: string
  layout :: string
  accent :: string
  containerKey :: string
  column :: nat

record tabInfo =
  url :: string
  title :: string
  host :: string
  iconUrl :: string

datatype error =
    ContainerAlreadyExists string
  | CategoryAlreadyExists string
  | ContainerDoesNotExist string
  | ContainerMarkerNotFound string
  | CategoryDoesNotExist string
  | CategoryInformationNotFound string
  | InsertMarkerNotFound string
  | PatternSyntaxError string

section \<open>Template renderer\<close>

definition HTML_TEMPLATES_container :: "string \<Rightarrow> nat \<Rightarrow> string" where
  \<open>HTML_TEMPLATES_container cKey cols =
     ''<div class="layout-container layout-'' @ numberToString cols @ ''col" id="''
       @ cKey @ ''-container">\<newline>''
     @ ''  <!-- Container: '' @ cKey @ '' -->\<newline>''
     @ ''  <!-- CONTAINER_'' @ toUpperCase cKey @ ''_CONTENT_START -->\<newline>''
     @ ''  <!-- CONTAINER_'' @ toUpperCase cKey @ ''_CONTENT_END -->\<newline>''
     @ ''</div>\<newline>\<newline>''\<close>

definition layoutClassOf :: "string \<Rightarrow> string" where
  "layoutClassOf lay =
     (if lay = ''compact'' then ''section-compact''
      else if lay = ''large'' then ''section-large'' else ''section-card'')"

definition contentClassOf :: "string \<Rightarrow> string" where
  "contentClassOf lay =
     (if lay = ''compact'' then ''compact-links''
      else if lay = ''large'' then ''large-links'' else ''links'')"

definition HTML_TEMPLATES_category :: "category \<Rightarrow> string \<Rightarrow> string" where
  \<open>HTML_TEMPLATES_category cat lay =
     ''  <section class="'' @ layoutClassOf lay @ '' accent-'' @ accent cat @ ''" id="''
       @ key cat @ ''-section">\<newline>''
     @ ''    <header class="'' @ layoutClassOf lay @ ''__header">\<newline>''
     @ ''      <div class="'' @ layoutClassOf lay @ ''__title">'' @ escapeHtml (name cat)
       @ ''</div>\<newline>''
     @ ''      <div class="'' @ layoutClassOf lay @ ''__meta">'' @ escapeHtml (description cat)
       @ ''</div>\<newline>''
     @ ''    </header>\<newline>''
     @ ''    <div class="'' @ contentClassOf lay @ ''">\<newline>''
     @ ''      <!-- '' @ toUpperCase (key cat) @ ''_LINKS_END -->\<newline>''
     @ ''    </div>\<newline>''
     @ ''  </section>''\<close>

definition HTML_TEMPLATES_link :: "tabInfo \<Rightarrow> string \<Rightarrow> string" where
  \<open>HTML_TEMPLATES_link tab lay =
     (if lay = ''compact'' then
        ''      <a class="compact-link" href="'' @ url tab
          @ ''" target="_blank" rel="noopener">\<newline>''
        @ ''        <img src="'' @ iconUrl tab @ ''" alt="" class="compact-icon">\<newline>''
        @ ''        <span class="compact-title">'' @ escapeHtml (title tab) @ ''</span>\<newline>''
        @ ''        <span class="compact-url">'' @ escapeHtml (host tab) @ ''</span>\<newline>''
        @ ''      </a>''
      else if lay = ''large'' then
        ''      <a class="large-link" href="'' @ url tab
          @ ''" target="_blank" rel="noopener">\<newline>''
        @ ''        <div class="large-preview">\<newline>''
        @ ''          <img src="https://mini.s-shot.ru/1024x768/JPEG/1024/Z100/?''
          @ encodeURIComponent (url tab)
          @ ''" alt="Preview" class="large-screenshot" onerror="this.style.display=''
          @ [CHR 0x27] @ ''none'' @ [CHR 0x27] @ '';">\<newline>''
        @ ''          <img src="'' @ iconUrl tab @ ''" alt="" class="large-icon">\<newline>''
        @ ''        </div>\<newline>''
        @ ''        <div class="large-content">\<newline>''
        @ ''          <div class="large-title">'' @ escapeHtml (title tab) @ ''</div>\<newline>''
        @ ''          <div class="large-url">'' @ escapeHtml (host tab) @ ''</div>\<newline>''
        @ ''        </div>\<newline>''
        @ ''      </a>''
      else
        ''      <a class="linkcard" href="'' @ url tab
          @ ''" target="_blank" rel="noopener">\<newline>''
        @ ''        <img src="'' @ iconUrl tab @ ''" alt="">\<newline>''
        @ ''        <div>\<newline>''
        @ ''          <div class="title">'' @ escapeHtml (title tab) @ ''</div>\<newline>''
        @ ''          <div class="url">'' @ escapeHtml (host tab) @ ''</div>\<newline>''
        @ ''        </div>\<newline>''
        @ ''      </a>'')\<close>

section \<open>Pattern matching of the structure analyzer\<close>

text \<open>
  The analyzer's regular expressions are literal text around character-class runs, and
  each run is followed by a character outside its class (or by a literal that ends in
  such a character). The backtracking matcher therefore has one way to match at a given
  position: every run is maximal. The matchers below try the pattern at the head of the
  text and return the capture groups together with the text after the match.
\<close>

definition stripPrefix :: "string \<Rightarrow> string \<Rightarrow> string option" where
  "stripPrefix p s = (if prefix p s then Some (drop (length p) s) else None)"

text \<open>
  A scan with the \<open>g\<close> flag (\<open>exec\<close> in a loop, \<open>matchAll\<close>): the leftmost match
  from the current position, then on from the end of that match. None of the analyzer's
  patterns matches the empty text, so every match moves the position on; the guard below
  keeps the recursion structural and is never taken by these patterns.
\<close>

fun regexMatchAll :: "(string \<Rightarrow> ('a \<times> string) option) \<Rightarrow> string \<Rightarrow> 'a list" where
  "regexMatchAll m [] = []"
| "regexMatchAll m (c # cs) =
     (case m (c # cs) of
        Some (g, rest) \<Rightarrow> g # regexMatchAll m (if length rest \<le> length cs then rest else cs)
      | None \<Rightarrow> regexMatchAll m cs)"

text \<open>A single \<open>exec\<close> without the \<open>g\<close> flag: the leftmost match, if any.\<close>

fun regexExec :: "(string \<Rightarrow> ('a \<times> string) option) \<Rightarrow> string \<Rightarrow> 'a option" where
  "regexExec m [] = None"
| "regexExec m (c # cs) =
     (case m (c # cs) of Some (g, rest) \<Rightarrow> Some g | None \<Rightarrow> regexExec m cs)"

text \<open>
  \<open><div class="layout-container layout-(\d+)col" id="([^"]+)-container">\<close>
\<close>

definition containerRegex :: "string \<Rightarrow> ((string \<times> string) \<times> string) option" where
  \<open>containerRegex s =
     (case stripPrefix ''<div class="layout-container layout-'' s of
        None \<Rightarrow> None
      | Some s1 \<Rightarrow>
          let digits = takeWhile isDigit s1; s2 = dropWhile isDigit s1 in
          if digits = [] then None
          else (case stripPrefix ''col" id="'' s2 of
             None \<Rightarrow> None
           | Some s3 \<Rightarrow>
               let run = takeWhile (\<lambda>c. c \<noteq> CHR ''"'') s3;
                   s4 = dropWhile (\<lambda>c. c \<noteq> CHR ''"'') s3 in
               if length ''-container'' < length run \<and> endsWith run ''-container''
                  \<and> prefix ''">'' s4
               then Some ((digits, take (length run - length ''-container'') run), drop 2 s4)
               else None))\<close>

text \<open>
  \<open><section class="(section-\w+)\s+accent-(\w+)" id="([^"]+)-section">\<close>
\<close>

definition sectionRegex :: "string \<Rightarrow> ((string \<times> string \<times> string) \<times> string) option" where
  \<open>sectionRegex s =
     (case stripPrefix ''<section class="section-'' s of
        None \<Rightarrow> None
      | Some s1 \<Rightarrow>
          let w = takeWhile isWord s1; s2 = dropWhile isWord s1;
              sp = takeWhile isSpace s2; s3 = dropWhile isSpace s2 in
          if w = [] \<or> sp = [] then None
          else (case stripPrefix ''accent-'' s3 of
             None \<Rightarrow> None
           | Some s4 \<Rightarrow>
               let a = takeWhile isWord s4; s5 = dropWhile isWord s4 in
               if a = [] then None
               else (case stripPrefix ''" id="'' s5 of
                  None \<Rightarrow> None
                | Some s6 \<Rightarrow>
                    let run = takeWhile (\<lambda>c. c \<noteq> CHR ''"'') s6;
                        s7 = dropWhile (\<lambda>c. c \<noteq> CHR ''"'') s6 in
                    if length ''-section'' < length run \<and> endsWith run ''-section''
                       \<and> prefix ''">'' s7
                    then Some ((''section-'' @ w, a,
                                 take (length run - length ''-section'') run), drop 2 s7)
                    else None)))\<close>

text \<open>
  \<open><div class="${layoutClass}__title">([^<]+)</div>\<close> and
  \<open><div class="${layoutClass}__meta">([^<]*)</div>\<close>. The layout class comes from
  the section pattern, so it is \<open>section-\<close> and word characters and holds no
  character that is special in a pattern.
\<close>

definition divTextRegex :: "string \<Rightarrow> bool \<Rightarrow> string \<Rightarrow> (string \<times> string) option" where
  \<open>divTextRegex openTag mayBeEmpty s =
     (case stripPrefix openTag s of
        None \<Rightarrow> None
      | Some s1 \<Rightarrow>
          let txt = takeWhile (\<lambda>c. c \<noteq> CHR ''<'') s1;
              s2 = dropWhile (\<lambda>c. c \<noteq> CHR ''<'') s1 in
          if (mayBeEmpty \<or> txt \<noteq> []) \<and> prefix ''</div>'' s2
          then Some (txt, drop (length ''</div>'') s2) else None)\<close>

definition titleRegex :: "string \<Rightarrow> string \<Rightarrow> (string \<times> string) option" where
  \<open>titleRegex layoutClass = divTextRegex (''<div class="'' @ layoutClass @ ''__title">'') False\<close>

definition metaRegex :: "string \<Rightarrow> string \<Rightarrow> (string \<times> string) option" where
  \<open>metaRegex layoutClass = divTextRegex (''<div class="'' @ layoutClass @ ''__meta">'') True\<close>

text \<open>\<open><!-- CONTAINER_([^_]+)_CONTENT_START -->\<close>\<close>

definition containerStartRegex :: "string \<Rightarrow> (string \<times> string) option" where
  \<open>containerStartRegex s =
     (case stripPrefix ''<!-- CONTAINER_'' s of
        None \<Rightarrow> None
      | Some s1 \<Rightarrow>
          let run = takeWhile (\<lambda>c. c \<noteq> CHR ''_'') s1;
              s2 = dropWhile (\<lambda>c. c \<noteq> CHR ''_'') s1 in
          if run \<noteq> [] \<and> prefix ''_CONTENT_START -->'' s2
          then Some (run, drop (length ''_CONTENT_START -->'') s2) else None)\<close>

section \<open>Structure analyzer\<close>

text \<open>
  A \<open>WikiStructureAnalyzer\<close> holds the content it was constructed with and nothing
  else; its methods are functions of that content.
\<close>

definition categoryExists :: "string \<Rightarrow> string \<Rightarrow> bool" where
  \<open>categoryExists content categoryKey = includes_js content (''id="'' @ categoryKey @ ''-section"'')\<close>

definition containerExists :: "string \<Rightarrow> string \<Rightarrow> bool" where
  \<open>containerExists content cKey = includes_js content (''id="'' @ cKey @ ''-container"'')\<close>

definition findContainerForCategory :: "string \<Rightarrow> string \<Rightarrow> string option" where
  \<open>findContainerForCategory content categoryKey =
     (case indexOf content (''id="'' @ categoryKey @ ''-section"'') of
        None \<Rightarrow> None
      | Some sectionPos \<Rightarrow>
          let beforeSection = substring content 0 sectionPos;
              containerMatches = regexMatchAll containerStartRegex beforeSection in
          if containerMatches = [] then None
          else Some (toLowerCase (last containerMatches)))\<close>

definition categoryOfMatch :: "string \<Rightarrow> string \<times> string \<times> string \<Rightarrow> category" where
  \<open>categoryOfMatch content m =
     (case m of (layoutClass, acc, k) \<Rightarrow>
        let lay = (if includes_js layoutClass ''compact'' then ''compact''
                   else if includes_js layoutClass ''large'' then ''large'' else ''cards'');
            sectionContent =
              (case indexOf content (''id="'' @ k @ ''-section"'') of
                 Some sectionStart \<Rightarrow> substring content sectionStart (sectionStart + 500)
               | None \<Rightarrow> substring content 0 499);
            titleMatch = regexExec (titleRegex layoutClass) sectionContent;
            metaMatch = regexExec (metaRegex layoutClass) sectionContent;
            owner = findContainerForCategory content k
        in \<lparr> key = k,
             name = (case titleMatch of Some t \<Rightarrow> t | None \<Rightarrow> k),
             description = (case metaMatch of Some d \<Rightarrow> d | None \<Rightarrow> []),
             layout = lay,
             accent = acc,
             containerKey = (case owner of Some c \<Rightarrow> c | None \<Rightarrow> ''unknown''),
             column = 0 \<rparr>)\<close>

definition extractCategories :: "string \<Rightarrow> category list" where
  "extractCategories content = map (categoryOfMatch content) (regexMatchAll sectionRegex content)"

text \<open>
  The display name of a container is looked up with a pattern compiled at run time from
  the key found in the Document:
  \<open>new RegExp(`<!-- Container: ${key}(?:\\s*-\\s*(.+?))? -->`, 'i')\<close>.

  A key without pattern syntax characters is literal text of that pattern, and the
  pattern is modelled below. At a position of the text the literal
  \<open><!-- Container: key\<close> is compared ignoring case (two characters below 256 are
  equal ignoring case when their capitals are equal). The optional group is tried first:
  the first \<open>\s*\<close> can only stop at the end of the white space, where the dash must
  follow; the second \<open>\s*\<close> is tried from its longest run down to the empty one, and for
  each the lazy \<open>(.+?)\<close> takes the fewest characters, at least one and none of them a
  line terminator, after which the closing \<open> -->\<close> follows. If the group cannot be
  matched, the closing \<open> -->\<close> must follow the key directly.

  A key that holds a syntax character is pattern source. What it compiles to is the
  parameter \<open>compiled\<close> of \<open>extractContainers\<close>: \<open>compiled content key\<close> is the first
  capture group of the match on the content (\<^const>\<open>None\<close> without a match or without
  the group), or the error of a key that does not compile.
\<close>

definition patternSyntaxChar :: "char \<Rightarrow> bool" where
  "patternSyntaxChar c = (c \<in> set (''^$.*+?()[]{}|'' @ [CHR 0x5C]))"

definition isLineTerminator :: "char \<Rightarrow> bool" where
  "isLineTerminator c = (c = CHR 0x0A \<or> c = CHR 0x0D)"

definition stripPrefixIgnoringCase :: "string \<Rightarrow> string \<Rightarrow> string option" where
  "stripPrefixIgnoringCase p s =
     (if length p \<le> length s \<and> map toUpperChar p = map toUpperChar (take (length p) s)
      then Some (drop (length p) s) else None)"

fun lazyDots :: "string \<Rightarrow> string \<Rightarrow> string option" where
  "lazyDots acc [] = None"
| "lazyDots acc (c # cs) =
     (if isLineTerminator c then None
      else if prefix '' -->'' cs then Some (rev (c # acc))
      else lazyDots (c # acc) cs)"

fun afterDash :: "nat \<Rightarrow> string \<Rightarrow> string option" where
  "afterDash 0 s = lazyDots [] s"
| "afterDash (Suc n) s =
     (case lazyDots [] (drop (Suc n) s) of
        Some g \<Rightarrow> Some g
      | None \<Rightarrow> afterDash n s)"

definition nameGroup :: "string \<Rightarrow> string option" where
  "nameGroup s =
     (case dropWhile isSpace s of
        [] \<Rightarrow> None
      | c # s2 \<Rightarrow>
          if c = CHR ''-'' then afterDash (length (takeWhile isSpace s2)) s2 else None)"

definition commentRegex :: "string \<Rightarrow> string \<Rightarrow> (string option \<times> string) option" where
  "commentRegex k s =
     (case stripPrefixIgnoringCase (''<!-- Container: '' @ k) s of
        None \<Rightarrow> None
      | Some rest \<Rightarrow>
          (case nameGroup rest of
             Some g \<Rightarrow> Some (Some g, [])
           | None \<Rightarrow> if prefix '' -->'' rest then Some (None, []) else None))"

definition commentMatchOf ::
  "(string \<Rightarrow> string \<Rightarrow> error + string option) \<Rightarrow> string \<Rightarrow> string \<Rightarrow> error + string option" where
  "commentMatchOf compiled content k =
     (if list_ex patternSyntaxChar k then compiled content k
      else Inr (case regexExec (commentRegex k) content of Some g \<Rightarrow> g | None \<Rightarrow> None))"

text \<open>\<open>key.charAt(0).toUpperCase() + key.slice(1)\<close>\<close>

definition capitalize :: "string \<Rightarrow> string" where
  "capitalize k = (case k of [] \<Rightarrow> [] | c # cs \<Rightarrow> toUpperCase [c] @ cs)"

definition containerName :: "string option \<Rightarrow> string \<Rightarrow> string" where
  "containerName commentMatch k =
     (case commentMatch of
        Some n \<Rightarrow> if n \<noteq> [] then n else capitalize k
      | None \<Rightarrow> capitalize k)"

fun containersOfMatches ::
  "(string \<Rightarrow> string \<Rightarrow> error + string option) \<Rightarrow> string \<Rightarrow> (string \<times> string) list
     \<Rightarrow> error + container list" where
  "containersOfMatches compiled content [] = Inr []"
| "containersOfMatches compiled content ((digits, k) # ms) =
     (case commentMatchOf compiled content k of
        Inl e \<Rightarrow> Inl e
      | Inr commentMatch \<Rightarrow>
          (case containersOfMatches compiled content ms of
             Inl e \<Rightarrow> Inl e
           | Inr containers \<Rightarrow>
               Inr (\<lparr> key = k, name = containerName commentMatch k,
                      columns = parseInt digits \<rparr> # containers)))"

definition extractContainers ::
  "(string \<Rightarrow> string \<Rightarrow> error + string option) \<Rightarrow> string \<Rightarrow> error + container list" where
  "extractContainers compiled content =
     containersOfMatches compiled content (regexMatchAll containerRegex content)"

section \<open>Content manager\<close>

text \<open>
  A \<open>WikiContentManager\<close> holds the Document and the analyzer bound to it; the
  analyzer is represented by the content it was constructed with. A method returns the
  error it throws, if any, and the manager as the call leaves it.
\<close>

record wikiContentManager =
  content :: string
  analyzer :: string

definition newWikiContentManager :: "string \<Rightarrow> wikiContentManager" where
  "newWikiContentManager c = \<lparr> content = c, analyzer = c \<rparr>"

definition getContent :: "wikiContentManager \<Rightarrow> string" where
  "getContent m = content m"

definition addContainer ::
  "string \<Rightarrow> string \<Rightarrow> nat \<Rightarrow> wikiContentManager \<Rightarrow> error option \<times> wikiContentManager" where
  \<open>addContainer cKey displayName cols m =
     (if containerExists (analyzer m) cKey then (Some (ContainerAlreadyExists cKey), m)
      else
        let containerHTML = HTML_TEMPLATES_container cKey cols;
            content' = content m
              @ (if content m \<noteq> [] \<and> \<not> endsWith (content m) ''\<newline>''
                 then ''\<newline>\<newline>'' else ''\<newline>'')
              @ containerHTML
        in (None, \<lparr> content = content', analyzer = content' \<rparr>))\<close>

definition addCategory ::
  "category \<Rightarrow> wikiContentManager \<Rightarrow> error option \<times> wikiContentManager" where
  \<open>addCategory cat m =
     (if categoryExists (analyzer m) (key cat) then (Some (CategoryAlreadyExists (key cat)), m)
      else if \<not> containerExists (analyzer m) (containerKey cat)
      then (Some (ContainerDoesNotExist (containerKey cat)), m)
      else
        let categoryHTML = HTML_TEMPLATES_category cat (layout cat);
            contentEndMarker = ''<!-- CONTAINER_'' @ toUpperCase (containerKey cat) @ ''_CONTENT_END -->''
        in case indexOf (content m) contentEndMarker of
             None \<Rightarrow> (Some (ContainerMarkerNotFound (containerKey cat)), m)
           | Some markerPos \<Rightarrow>
               let beforeMarker = substring (content m) 0 markerPos;
                   afterMarker = drop markerPos (content m);
                   startMarker = ''<!-- CONTAINER_'' @ toUpperCase (containerKey cat)
                                   @ ''_CONTENT_START -->'';
                   hasContent =
                     (case indexOf (content m) startMarker of
                        None \<Rightarrow> False
                      | Some startPos \<Rightarrow>
                          0 < length (trim (substring (content m)
                                             (startPos + length startMarker) markerPos)));
                   insertion = (if hasContent then ''\<newline>  '' else []) @ categoryHTML @ ''\<newline>  '';
                   content' = beforeMarker @ insertion @ afterMarker
               in (None, \<lparr> content = content', analyzer = content' \<rparr>))\<close>

definition addLinkToCategory ::
  "tabInfo \<Rightarrow> string \<Rightarrow> wikiContentManager \<Rightarrow> error option \<times> wikiContentManager" where
  \<open>addLinkToCategory tab categoryKey m =
     (if \<not> categoryExists (analyzer m) categoryKey
      then (Some (CategoryDoesNotExist categoryKey), m)
      else case find (\<lambda>cat. key cat = categoryKey) (extractCategories (analyzer m)) of
          None \<Rightarrow> (Some (CategoryInformationNotFound categoryKey), m)
        | Some cat \<Rightarrow>
            let linkHTML = HTML_TEMPLATES_link tab (layout cat);
                marker = ''<!-- '' @ toUpperCase categoryKey @ ''_LINKS_END -->''
            in (case indexOf (content m) marker of
                  None \<Rightarrow> (Some (InsertMarkerNotFound categoryKey), m)
                | Some markerPos \<Rightarrow>
                    (None, m \<lparr> content := take markerPos (content m) @ linkHTML
                                            @ ''\<newline>      '' @ drop markerPos (content m) \<rparr>)))\<close>

text \<open>The body of the \<open>forEach\<close> of \<open>removeAllLinks\<close>, on the content so far.\<close>

definition removeLinksOf :: "string \<Rightarrow> category \<Rightarrow> string" where
  \<open>removeLinksOf c cat =
     (let marker = ''<!-- '' @ toUpperCase (key cat) @ ''_LINKS_END -->'' in
      case indexOf c marker of
        None \<Rightarrow> c
      | Some markerPos \<Rightarrow>
          let beforeMarker = substring c 0 markerPos;
              found =
                (if layout cat = ''compact'' then lastIndexOf beforeMarker ''<div class="compact-links">''
                 else if layout cat = ''large'' then lastIndexOf beforeMarker ''<div class="large-links">''
                 else lastIndexOf beforeMarker ''<div class="links">'')
          in (case found of
                None \<Rightarrow> c
              | Some linkContainerStart \<Rightarrow>
                  let linkContainerStartEnd =
                        (case indexOfFrom c ''>'' linkContainerStart of
                           None \<Rightarrow> 0 | Some i \<Rightarrow> i + 1);
                      beforeLinks = substring c 0 linkContainerStartEnd;
                      afterLinks = drop markerPos c
                  in beforeLinks @ ''\<newline>      '' @ afterLinks))\<close>

definition removeAllLinks :: "wikiContentManager \<Rightarrow> wikiContentManager" where
  "removeAllLinks m =
     (let categories = extractCategories (analyzer m);
          content' = foldl removeLinksOf (content m) categories
      in \<lparr> content = content', analyzer = content' \<rparr>)"

section \<open>Notions used in the proofs\<close>

text \<open>
  The text between consecutive double quotes (\<open>splitAtQuotes\<close>, and
  \<open>splitAcc\<close> which computes it with an accumulator); the shape of the text that the
  section pattern matches; the alphabet of the keys that the key derivation of
  \<open>createNewCategory\<close> produces (\<open>[a-z0-9_-]\<close>); and the end-of-links marker
  of a category key, as \<open>addLinkToCategory\<close> and \<open>removeAllLinks\<close> build it.
\<close>

fun splitAtQuotes :: "string \<Rightarrow> string list" where
  "splitAtQuotes [] = [[]]"
| \<open>splitAtQuotes (c # cs) =
     (if c = CHR ''"'' then [] # splitAtQuotes cs
      else (case splitAtQuotes cs of x # xs \<Rightarrow> (c # x) # xs | [] \<Rightarrow> [[c]]))\<close>

fun splitAcc :: "string \<Rightarrow> string \<Rightarrow> string list" where
  "splitAcc acc [] = [rev acc]"
| \<open>splitAcc acc (c # cs) =
     (if c = CHR ''"'' then rev acc # splitAcc [] cs else splitAcc (c # acc) cs)\<close>

fun quotedAfter :: "string \<Rightarrow> string \<Rightarrow> string \<Rightarrow> string list \<Rightarrow> bool" where
  "quotedAfter a k s (x # y # z # zs) =
     ((suffix a x \<and> suffix s y \<and> y = k @ s) \<or> quotedAfter a k s (y # z # zs))"
| "quotedAfter a k s zs = False"

definition sectionText :: "string \<Rightarrow> string \<Rightarrow> string \<Rightarrow> string \<Rightarrow> string" where
  \<open>sectionText w sp a k =
     ''<section class="section-'' @ w @ sp @ ''accent-'' @ a @ ''" id="'' @ k @ ''-section">''\<close>

definition sectionParts :: "string \<Rightarrow> string \<Rightarrow> string \<Rightarrow> string \<Rightarrow> bool" where
  \<open>sectionParts w sp a k =
     (w \<noteq> [] \<and> list_all isWord w \<and> sp \<noteq> [] \<and> list_all isSpace sp
      \<and> a \<noteq> [] \<and> list_all isWord a \<and> k \<noteq> [] \<and> CHR ''"'' \<notin> set k)\<close>

definition keyChar :: "char \<Rightarrow> bool" where
  "keyChar c = (c \<in> set ''abcdefghijklmnopqrstuvwxyz0123456789_-'')"

definition validKey :: "string \<Rightarrow> bool" where
  "validKey k = (k \<noteq> [] \<and> list_all keyChar k)"

definition linksEndMarker :: "string \<Rightarrow> string" where
  "linksEndMarker k = ''<!-- '' @ toUpperCase k @ ''_LINKS_END -->''"

definition consuming :: "(string \<Rightarrow> ('a \<times> string) option) \<Rightarrow> bool" where
  "consuming m = (\<forall>s g rest. m s = Some (g, rest) \<longrightarrow> (\<exists>t. t \<noteq> [] \<and> s = t @ rest))"

definition prefixKeysDocument :: string where
  \<open>prefixKeysDocument =
     ''<section class="section-compact accent-red" id="dev_tools-section">''
     @ ''<!-- DEV_TOOLS_LINKS_END -->''
     @ ''<section class="section-large accent-blue" id="dev-section">''
     @ ''<!-- DEV_LINKS_END -->''\<close>

text \<open>
  Blank lines. A text ends in a blank line when its last line is empty: it is a single
  line break, or it ends in two line breaks. A block at the end of a Document is
  preceded by a blank line when the text before it ends in one.
  \<open>blankLineExpected\<close> is the condition under which the specification expects the
  blank line before an appended container: the Document is non-empty and does not
  already end in a blank line.
\<close>

definition endsInBlankLine :: "string \<Rightarrow> bool" where
  "endsInBlankLine s = (s = ''\<newline>'' \<or> endsWith s ''\<newline>\<newline>'')"

definition precededByBlankLine :: "string \<Rightarrow> string \<Rightarrow> bool" where
  "precededByBlankLine block doc =
     (endsWith doc block \<and> endsInBlankLine (take (length doc - length block) doc))"

definition blankLineExpected :: "string \<Rightarrow> bool" where
  "blankLineExpected doc = (doc \<noteq> [] \<and> \<not> endsInBlankLine doc)"

text \<open>
  The round trip: from the empty Document the editor adds a container, a category in it
  and a link in the category. \<open>composedDocument\<close> is the text this produces, written
  out piece by piece; the remaining notions name pieces of that text and of the patterns
  that scan it. \<open>litThen L body\<close> is a pattern that starts with the literal \<open>L\<close>.
\<close>

definition composedDocument :: "string \<Rightarrow> nat \<Rightarrow> category \<Rightarrow> tabInfo \<Rightarrow> string" where
  \<open>composedDocument k cols cat tab =
     ''\<newline>''
     @ ''<div class="layout-container layout-'' @ numberToString cols @ ''col" id="''
       @ k @ ''-container">\<newline>''
     @ ''  <!-- Container: '' @ k @ '' -->\<newline>''
     @ ''  <!-- CONTAINER_'' @ toUpperCase k @ ''_CONTENT_START -->\<newline>''
     @ ''  ''
     @ ''  <section class="'' @ layoutClassOf (layout cat) @ '' accent-'' @ accent cat @ ''" id="''
       @ key cat @ ''-section">\<newline>''
     @ ''    <header class="'' @ layoutClassOf (layout cat) @ ''__header">\<newline>''
     @ ''      <div class="'' @ layoutClassOf (layout cat) @ ''__title">'' @ escapeHtml (name cat)
       @ ''</div>\<newline>''
     @ ''      <div class="'' @ layoutClassOf (layout cat) @ ''__meta">'' @ escapeHtml (description cat)
       @ ''</div>\<newline>''
     @ ''    </header>\<newline>''
     @ ''    <div class="'' @ contentClassOf (layout cat) @ ''">\<newline>''
     @ ''      '' @ HTML_TEMPLATES_link tab (layout cat) @ ''\<newline>      ''
     @ ''<!-- '' @ toUpperCase (key cat) @ ''_LINKS_END -->\<newline>''
     @ ''    </div>\<newline>''
     @ ''  </section>''
     @ ''\<newline>  ''
     @ ''<!-- CONTAINER_'' @ toUpperCase k @ ''_CONTENT_END -->\<newline>''
     @ ''</div>\<newline>\<newline>''\<close>

definition ltFree :: "string \<Rightarrow> bool" where
  "ltFree s = (CHR ''<'' \<notin> set s)"

definition litThen :: "string \<Rightarrow> (string \<Rightarrow> 'a option) \<Rightarrow> string \<Rightarrow> 'a option" where
  "litThen L body s = (case stripPrefix L s of None \<Rightarrow> None | Some s1 \<Rightarrow> body s1)"

definition roundTripDocument :: "string \<Rightarrow> string \<Rightarrow> nat \<Rightarrow> category \<Rightarrow> tabInfo \<Rightarrow> string" where
  "roundTripDocument k displayName cols cat tab =
     getContent (snd (addLinkToCategory tab (key cat)
       (snd (addCategory cat
         (snd (addContainer k displayName cols (newWikiContentManager [])))))))"

definition sectionBody :: "string \<Rightarrow> ((string \<times> string \<times> string) \<times> string) option" where
  \<open>sectionBody s1 =
     (let w = takeWhile isWord s1; s2 = dropWhile isWord s1;
          sp = takeWhile isSpace s2; s3 = dropWhile isSpace s2 in
      if w = [] \<or> sp = [] then None
      else (case stripPrefix ''accent-'' s3 of
         None \<Rightarrow> None
       | Some s4 \<Rightarrow>
           let a = takeWhile isWord s4; s5 = dropWhile isWord s4 in
           if a = [] then None
           else (case stripPrefix ''" id="'' s5 of
              None \<Rightarrow> None
            | Some s6 \<Rightarrow>
                let run = takeWhile (\<lambda>c. c \<noteq> CHR ''"'') s6;
                    s7 = dropWhile (\<lambda>c. c \<noteq> CHR ''"'') s6 in
                if length ''-section'' < length run \<and> endsWith run ''-section''
                   \<and> prefix ''">'' s7
                then Some ((''section-'' @ w, a,
                             take (length run - length ''-section'') run), drop 2 s7)
                else None)))\<close>

definition containerBody :: "string \<Rightarrow> ((string \<times> string) \<times> string) option" where
  \<open>containerBody s1 =
     (let digits = takeWhile isDigit s1; s2 = dropWhile isDigit s1 in
      if digits = [] then None
      else (case stripPrefix ''col" id="'' s2 of
         None \<Rightarrow> None
       | Some s3 \<Rightarrow>
           let run = takeWhile (\<lambda>c. c \<noteq> CHR ''"'') s3;
               s4 = dropWhile (\<lambda>c. c \<noteq> CHR ''"'') s3 in
           if length ''-container'' < length run \<and> endsWith run ''-container''
              \<and> prefix ''">'' s4
           then Some ((digits, take (length run - length ''-container'') run), drop 2 s4)
           else None))\<close>

definition divBody :: "bool \<Rightarrow> string \<Rightarrow> (string \<times> string) option" where
  \<open>divBody mayBeEmpty s1 =
     (let txt = takeWhile (\<lambda>c. c \<noteq> CHR ''<'') s1;
          s2 = dropWhile (\<lambda>c. c \<noteq> CHR ''<'') s1 in
      if (mayBeEmpty \<or> txt \<noteq> []) \<and> prefix ''</div>'' s2
      then Some (txt, drop (length ''</div>'') s2) else None)\<close>

definition layoutWord :: "string \<Rightarrow> string" where
  "layoutWord lay =
     (if lay = ''compact'' then ''compact'' else if lay = ''large'' then ''large'' else ''card'')"

definition containerText :: "string \<Rightarrow> string \<Rightarrow> string" where
  \<open>containerText digits k =
     ''<div class="layout-container layout-'' @ digits @ ''col" id="'' @ k @ ''-container">''\<close>

definition docBefore :: "string \<Rightarrow> nat \<Rightarrow> string" where
  \<open>docBefore k cols =
     ''\<newline>''
     @ ''<div class="layout-container layout-'' @ numberToString cols @ ''col" id="''
       @ k @ ''-container">\<newline>''
     @ ''  <!-- Container: '' @ k @ '' -->\<newline>''
     @ ''  <!-- CONTAINER_'' @ toUpperCase k @ ''_CONTENT_START -->\<newline>''
     @ ''  '' @ ''  ''\<close>

definition catHeader :: "category \<Rightarrow> string" where
  \<open>catHeader cat =
     ''\<newline>''
     @ ''    <header class="'' @ layoutClassOf (layout cat) @ ''__header">\<newline>''
     @ ''      <div class="'' @ layoutClassOf (layout cat) @ ''__title">'' @ escapeHtml (name cat)
       @ ''</div>\<newline>''
     @ ''      <div class="'' @ layoutClassOf (layout cat) @ ''__meta">'' @ escapeHtml (description cat)
       @ ''</div>\<newline>''
     @ ''    </header>\<newline>''
     @ ''    <div class="'' @ contentClassOf (layout cat) @ ''">\<newline>''
     @ ''      ''\<close>

definition docEnd :: "string \<Rightarrow> string" where
  \<open>docEnd k =
     ''\<newline>''
     @ ''    </div>\<newline>''
     @ ''  </section>''
     @ ''\<newline>  ''
     @ ''<!-- CONTAINER_'' @ toUpperCase k @ ''_CONTENT_END -->\<newline>''
     @ ''</div>\<newline>\<newline>''\<close>

definition knownLayout :: "string \<Rightarrow> bool" where
  "knownLayout lay = (lay = ''cards'' \<or> lay = ''compact'' \<or> lay = ''large'')"

definition categoryDocument :: "string \<Rightarrow> nat \<Rightarrow> category \<Rightarrow> string" where
  "categoryDocument k cols cat =
     docBefore k cols @ sectionText (layoutWord (layout cat)) '' '' (accent cat) (key cat)
     @ catHeader cat @ linksEndMarker (key cat) @ docEnd k"

definition sectionToken :: "string \<Rightarrow> string" where
  \<open>sectionToken k = ''id="'' @ k @ ''-section"''\<close>

definition windowHead :: "category \<Rightarrow> string" where
  \<open>windowHead cat =
     ''id="'' @ key cat @ ''-section">\<newline>''
     @ ''    <header class="'' @ layoutClassOf (layout cat) @ ''__header">\<newline>''
     @ ''      <div class="'' @ layoutClassOf (layout cat) @ ''__title">'' @ escapeHtml (name cat)
       @ ''</div>\<newline>''
     @ ''      <div class="'' @ layoutClassOf (layout cat) @ ''__meta">'' @ escapeHtml (description cat)
       @ ''</div>''\<close>

definition beforeToken :: "string \<Rightarrow> nat \<Rightarrow> category \<Rightarrow> string" where
  \<open>beforeToken k cols cat =
     docBefore k cols @ ''<section class="'' @ layoutClassOf (layout cat) @ '' accent-''
       @ accent cat @ ''" ''\<close>

definition afterContainerTag :: "string \<Rightarrow> category \<Rightarrow> string" where
  \<open>afterContainerTag k cat =
     ''\<newline>''
     @ ''  <!-- Container: '' @ k @ '' -->\<newline>''
     @ ''  <!-- CONTAINER_'' @ toUpperCase k @ ''_CONTENT_START -->\<newline>''
     @ ''  ''
     @ ''  <section class="'' @ layoutClassOf (layout cat) @ '' accent-'' @ accent cat @ ''" id="''
       @ key cat @ ''-section">\<newline>''
     @ ''    <header class="'' @ layoutClassOf (layout cat) @ ''__header">\<newline>''
     @ ''      <div class="'' @ layoutClassOf (layout cat) @ ''__title">'' @ escapeHtml (name cat)
       @ ''</div>\<newline>''
     @ ''      <div class="'' @ layoutClassOf (layout cat) @ ''__meta">'' @ escapeHtml (description cat)
       @ ''</div>\<newline>''
     @ ''    </header>\<newline>''
     @ ''    <div class="'' @ contentClassOf (layout cat) @ ''">\<newline>''
     @ ''      ''\<close>

definition lookAhead :: "string \<Rightarrow> string \<Rightarrow> string" where
  "lookAhead d k =
     (case indexOf d (sectionToken k) of
        Some sectionStart \<Rightarrow> substring d sectionStart (sectionStart + 500)
      | None \<Rightarrow> substring d 0 499)"

section \<open>Facts about the string operations\<close>


lemma indexOf_prefix: "prefix p s \<Longrightarrow> indexOf s p = Some 0"
  by (cases s) auto

lemma indexOf_append_prefix_Some: "\<exists>i. indexOf (u @ p @ v) p = Some i"
  by (induction u) (auto simp: indexOf_prefix)

lemma includes_js_appendI: "includes_js (u @ p @ v) p"
  using indexOf_append_prefix_Some [of u p v] by (auto simp: includes_js_def)

lemma indexOf_SomeD:
  "indexOf s p = Some i \<Longrightarrow> i \<le> length s \<and> prefix p (drop i s) \<and> (\<forall>j<i. \<not> prefix p (drop j s))"
proof (induction s arbitrary: i)
  case Nil
  then show ?case by (auto split: if_splits)
next
  case (Cons c cs)
  show ?case
  proof (cases "prefix p (c # cs)")
    case True
    with Cons.prems show ?thesis by simp
  next
    case False
    with Cons.prems obtain i' where i': "indexOf cs p = Some i'" "i = Suc i'" by auto
    from Cons.IH [OF i'(1)] have ih: "i' \<le> length cs" "prefix p (drop i' cs)"
      "\<forall>j<i'. \<not> prefix p (drop j cs)" by auto
    have "\<not> prefix p (drop j (c # cs))" if "j < i" for j
      using that False ih(3) i'(2) by (cases j) auto
    with ih i'(2) show ?thesis by simp
  qed
qed

lemma indexOf_NoneD: "indexOf s p = None \<Longrightarrow> j \<le> length s \<Longrightarrow> \<not> prefix p (drop j s)"
proof (induction s arbitrary: j)
  case Nil
  then show ?case by (auto split: if_splits)
next
  case (Cons c cs)
  then show ?case by (cases j) (auto split: if_splits)
qed

lemma indexOf_Some_decomp:
  "indexOf s p = Some i \<Longrightarrow> s = take i s @ p @ drop (i + length p) s"
proof -
  assume "indexOf s p = Some i"
  then have "prefix p (drop i s)" by (simp add: indexOf_SomeD)
  then obtain v where "drop i s = p @ v" by (auto simp: prefix_def)
  then have "drop (i + length p) s = v"
    by (metis add.commute append_eq_conv_conj drop_drop)
  then show ?thesis
    using \<open>drop i s = p @ v\<close> by (metis append_take_drop_id)
qed

lemma includes_js_iff: "includes_js s p \<longleftrightarrow> (\<exists>u v. s = u @ p @ v)"
proof
  assume "includes_js s p"
  then obtain i where "indexOf s p = Some i" by (auto simp: includes_js_def)
  from indexOf_Some_decomp [OF this] show "\<exists>u v. s = u @ p @ v" by blast
next
  assume "\<exists>u v. s = u @ p @ v"
  then show "includes_js s p" using includes_js_appendI by blast
qed


lemma replaceAll_Nil: "replaceAll c r [] = []"
  by (simp add: replaceAll_def)

lemma replaceAll_Cons: "replaceAll c r (x # xs) = (if x = c then r else [x]) @ replaceAll c r xs"
  by (simp add: replaceAll_def)

lemma replaceAll_append: "replaceAll c r (a @ b) = replaceAll c r a @ replaceAll c r b"
  by (simp add: replaceAll_def)

lemma escapeHtml_Nil: "escapeHtml [] = []"
  by (simp add: escapeHtml_def replaceAll_Nil)

lemma escapeHtml_Cons: "escapeHtml (c # cs) = escapeChar c @ escapeHtml cs"
  by (simp add: escapeHtml_def escapeChar_def replaceAll_Cons replaceAll_append replaceAll_Nil)

lemma escapeHtml_escapedText: "escapeHtml s = escapedText s"
  by (induction s) (simp_all add: escapeHtml_Nil escapeHtml_Cons escapedText_def)

lemma escapeChar_safe: \<open>set (escapeChar c) \<inter> {CHR ''<'', CHR ''>'', CHR ''"''} = {}\<close>
  by (simp add: escapeChar_def)

lemma escapeHtml_safe: \<open>set (escapeHtml s) \<inter> {CHR ''<'', CHR ''>'', CHR ''"''} = {}\<close>
  using escapeChar_safe by (induction s) (auto simp: escapeHtml_Nil escapeHtml_Cons)

lemma escapeHtml_id: \<open>set s \<inter> {CHR ''&'', CHR ''<'', CHR ''>'', CHR ''"''} = {} \<Longrightarrow> escapeHtml s = s\<close>
  by (induction s) (auto simp: escapeHtml_Nil escapeHtml_Cons escapeChar_def)


lemma includes_js_Cons_iff: "includes_js (c # s) p \<longleftrightarrow> prefix p (c # s) \<or> includes_js s p"
  by (auto simp: includes_js_def)

lemma includes_js_skip: "includes_js r p \<Longrightarrow> includes_js (x @ r) p = True"
  by (metis append.assoc includes_js_iff)

lemmas includes_search = includes_js_Cons_iff includes_js_skip

lemma category_title:
  \<open>includes_js (HTML_TEMPLATES_category cat lay) (''__title">'' @ escapedText (name cat) @ ''</div>'')\<close>
  by (simp add: HTML_TEMPLATES_category_def escapeHtml_escapedText includes_search)

lemma category_meta:
  \<open>includes_js (HTML_TEMPLATES_category cat lay) (''__meta">'' @ escapedText (description cat) @ ''</div>'')\<close>
  by (simp add: HTML_TEMPLATES_category_def escapeHtml_escapedText includes_search)

lemma link_url:
  \<open>includes_js (HTML_TEMPLATES_link tab lay) (''href="'' @ url tab @ ''"'')\<close>
  by (simp add: HTML_TEMPLATES_link_def includes_search)

lemma link_icon:
  \<open>includes_js (HTML_TEMPLATES_link tab lay) (''<img src="'' @ iconUrl tab @ ''"'')\<close>
  by (simp add: HTML_TEMPLATES_link_def includes_search)

lemma link_title:
  \<open>includes_js (HTML_TEMPLATES_link tab lay) (''title">'' @ escapedText (title tab) @ ''</'')\<close>
  by (simp add: HTML_TEMPLATES_link_def escapeHtml_escapedText includes_search)

lemma link_host:
  \<open>includes_js (HTML_TEMPLATES_link tab lay) (''url">'' @ escapedText (host tab) @ ''</'')\<close>
  by (simp add: HTML_TEMPLATES_link_def escapeHtml_escapedText includes_search)

lemma other_mutators_refresh_analyzer:
  "fst (addContainer k n c m) = None \<Longrightarrow>
     analyzer (snd (addContainer k n c m)) = content (snd (addContainer k n c m))"
  "fst (addCategory cat m) = None \<Longrightarrow>
     analyzer (snd (addCategory cat m)) = content (snd (addCategory cat m))"
  "analyzer (removeAllLinks m) = content (removeAllLinks m)"
  by (auto simp: addContainer_def addCategory_def removeAllLinks_def Let_def
        split: if_splits option.splits)

lemma containerExists_after_append:
  "containerExists (d @ sep @ HTML_TEMPLATES_container k c) k"
  by (simp add: containerExists_def HTML_TEMPLATES_container_def includes_search)

lemma splitAtQuotes_nonempty: "splitAtQuotes s \<noteq> []"
  by (induction s) (auto split: list.splits)

lemma splitAtQuotes_plain: \<open>CHR ''"'' \<notin> set a \<Longrightarrow> splitAtQuotes (a @ CHR ''"'' # b) = a # splitAtQuotes b\<close>
  by (induction a) auto

lemma splitAtQuotes_skip:
  \<open>CHR ''"'' \<notin> set x \<Longrightarrow>
     splitAtQuotes (x @ r) = (case splitAtQuotes r of y # ys \<Rightarrow> (x @ y) # ys | [] \<Rightarrow> [x])\<close>
  using splitAtQuotes_nonempty [of r] by (induction x) (auto split: list.splits)

lemma splitAcc_eq:
  "splitAcc acc s = (case splitAtQuotes s of y # ys \<Rightarrow> (rev acc @ y) # ys | [] \<Rightarrow> [])"
  using splitAtQuotes_nonempty [of s]
proof (induction s arbitrary: acc)
  case Nil
  then show ?case by simp
next
  case (Cons c s)
  then show ?case
    using splitAtQuotes_nonempty [of s] by (auto split: list.splits)
qed

lemma splitAtQuotes_splitAcc: "splitAtQuotes s = splitAcc [] s"
  using splitAtQuotes_nonempty [of s] by (simp add: splitAcc_eq split: list.splits)

lemma splitAcc_skip:
  \<open>CHR ''"'' \<notin> set x \<Longrightarrow> splitAcc acc (x @ r) = splitAcc (rev x @ acc) r\<close>
  by (induction x arbitrary: acc) auto

lemma splitAtQuotes_plain_end: \<open>CHR ''"'' \<notin> set a \<Longrightarrow> splitAtQuotes a = [a]\<close>
  by (induction a) auto

lemma splitAtQuotes_append:
  "splitAtQuotes (u @ r) =
     butlast (splitAtQuotes u) @ (last (splitAtQuotes u) @ hd (splitAtQuotes r)) # tl (splitAtQuotes r)"
proof (induction u)
  case Nil
  then show ?case using splitAtQuotes_nonempty [of r] by (cases "splitAtQuotes r") auto
next
  case (Cons c u)
  then show ?case
    using splitAtQuotes_nonempty [of u] splitAtQuotes_nonempty [of r]
    by (cases "splitAtQuotes u"; cases "splitAtQuotes r") (auto split: if_splits list.splits)
qed

lemma quotedAfter_append: "quotedAfter a k s zs \<Longrightarrow> quotedAfter a k s (ys @ zs)"
proof (induction ys)
  case Nil
  then show ?case by simp
next
  case (Cons y ys)
  then show ?case by (cases "(a, k, s, ys @ zs)" rule: quotedAfter.cases) auto
qed

lemma quotedAfter_occurrence:
  assumes \<open>CHR ''"'' \<notin> set a\<close> \<open>CHR ''"'' \<notin> set (k @ s)\<close>
    and \<open>includes_js d (a @ CHR ''"'' # k @ s @ [CHR ''"''])\<close>
  shows "quotedAfter a k s (splitAtQuotes d)"
proof -
  from assms(3) obtain u v where d: \<open>d = u @ (a @ CHR ''"'' # k @ s @ [CHR ''"'']) @ v\<close>
    by (auto simp: includes_js_iff)
  have r: \<open>splitAtQuotes ((a @ CHR ''"'' # k @ s @ [CHR ''"'']) @ v) = a # (k @ s) # splitAtQuotes v\<close>
    using assms(1,2) splitAtQuotes_plain [of a "(k @ s) @ CHR 0x22 # v"]
      splitAtQuotes_plain [of "k @ s" v] by simp
  obtain z zs where v: "splitAtQuotes v = z # zs"
    using splitAtQuotes_nonempty [of v] by (cases "splitAtQuotes v") auto
  have "quotedAfter a k s ((last (splitAtQuotes u) @ a) # (k @ s) # splitAtQuotes v)"
    unfolding v by (simp add: suffix_def)
  then have "quotedAfter a k s
      (butlast (splitAtQuotes u) @ (last (splitAtQuotes u) @ a) # (k @ s) # splitAtQuotes v)"
    by (rule quotedAfter_append)
  then show ?thesis
    unfolding d splitAtQuotes_append [of u] r by simp
qed

lemma toUpperCase_Nil: "toUpperCase [] = []"
  by (simp add: toUpperCase_def)

lemma toUpperCase_Cons:
  "toUpperCase (c # s) = (if c = CHR 0xDF then ''SS'' else [toUpperChar c]) @ toUpperCase s"
  by (simp add: toUpperCase_def)

lemma toUpperCase_map: "CHR 0xDF \<notin> set s \<Longrightarrow> toUpperCase s = map toUpperChar s"
  by (induction s) (simp_all add: toUpperCase_Nil toUpperCase_Cons eq_commute [of "CHR 0xDF"])

lemma keyChar_not_sharp: "list_all keyChar k \<Longrightarrow> CHR 0xDF \<notin> set k"
proof -
  have "\<not> keyChar (CHR 0xDF)" by code_simp
  then show "list_all keyChar k \<Longrightarrow> CHR 0xDF \<notin> set k"
    unfolding list_all_iff by blast
qed

lemma toUpperChar_other:
  assumes "list_all (\<lambda>p. fst p \<noteq> x \<and> snd p \<noteq> x) caseTable"
  shows "toUpperChar c = x \<longleftrightarrow> c = x"
proof (cases "map_of caseTable c")
  case None
  then show ?thesis by (simp add: toUpperChar_def)
next
  case (Some u)
  then have "(c, u) \<in> set caseTable" by (rule map_of_SomeD)
  with assms have "c \<noteq> x" "u \<noteq> x" by (auto simp: list_all_iff)
  with Some show ?thesis by (simp add: toUpperChar_def)
qed

lemma toUpperChar_quote: \<open>toUpperChar c = CHR ''"'' \<longleftrightarrow> c = CHR ''"''\<close>
  by (rule toUpperChar_other) code_simp

lemma toUpperCase_quoteFree: \<open>CHR ''"'' \<notin> set (toUpperCase s) \<longleftrightarrow> CHR ''"'' \<notin> set s\<close>
proof (induction s)
  case Nil
  show ?case by (simp add: toUpperCase_Nil)
next
  case (Cons c s)
  show ?case
  proof (cases "c = CHR 0xDF")
    case True
    with Cons show ?thesis by (simp add: toUpperCase_Cons)
  next
    case False
    with Cons toUpperChar_quote [of c] show ?thesis
      by (simp add: toUpperCase_Cons eq_commute [of \<open>CHR ''"''\<close>])
  qed
qed

lemma escapeHtml_quoteFree: \<open>CHR ''"'' \<notin> set (escapeHtml s)\<close>
  using escapeHtml_safe [of s] by auto

lemma numberToString_digits: "set (numberToString n) \<subseteq> set ''0123456789''"
proof (induction n rule: numberToString.induct)
  case (1 n)
  have d: "digitChar m \<in> set ''0123456789''" for m
    unfolding digitChar_def by (rule nth_mem) simp
  show ?case
  proof (cases "n < 10")
    case True
    then show ?thesis using d [of n] by (subst numberToString.simps) simp
  next
    case False
    then show ?thesis using 1 d [of "n mod 10"] by (subst numberToString.simps) simp
  qed
qed

lemma numberToString_quoteFree: \<open>CHR ''"'' \<notin> set (numberToString n)\<close>
  using numberToString_digits [of n] by auto

lemma layoutClassOf_quoteFree: \<open>CHR ''"'' \<notin> set (layoutClassOf lay)\<close>
  by (simp add: layoutClassOf_def)

lemma contentClassOf_quoteFree: \<open>CHR ''"'' \<notin> set (contentClassOf lay)\<close>
  by (simp add: contentClassOf_def)

lemma categoryExists_only_own_key:
  assumes \<open>CHR ''"'' \<notin> set k1\<close> \<open>CHR ''"'' \<notin> set (key cat)\<close> \<open>CHR ''"'' \<notin> set (accent cat)\<close>
    and "k1 \<noteq> key cat"
  shows "\<not> categoryExists (HTML_TEMPLATES_category cat lay) k1"
proof
  assume "categoryExists (HTML_TEMPLATES_category cat lay) k1"
  then have \<open>includes_js (HTML_TEMPLATES_category cat lay) (''id='' @ CHR ''"'' # k1 @ ''-section'' @ [CHR ''"''])\<close>
    by (simp add: categoryExists_def)
  then have "quotedAfter ''id='' k1 ''-section'' (splitAtQuotes (HTML_TEMPLATES_category cat lay))"
    using assms(1) by (intro quotedAfter_occurrence) auto
  then show False
    using assms
    by (simp add: HTML_TEMPLATES_category_def layoutClassOf_quoteFree contentClassOf_quoteFree
          splitAtQuotes_splitAcc splitAcc_skip toUpperCase_quoteFree escapeHtml_quoteFree
          suffix_to_prefix)
qed

lemma containerExists_only_own_key:
  assumes \<open>CHR ''"'' \<notin> set k1\<close> \<open>CHR ''"'' \<notin> set k2\<close> and "k1 \<noteq> k2"
  shows "\<not> containerExists (HTML_TEMPLATES_container k2 cols) k1"
proof
  assume "containerExists (HTML_TEMPLATES_container k2 cols) k1"
  then have \<open>includes_js (HTML_TEMPLATES_container k2 cols)
      (''id='' @ CHR ''"'' # k1 @ ''-container'' @ [CHR ''"''])\<close>
    by (simp add: containerExists_def)
  then have "quotedAfter ''id='' k1 ''-container'' (splitAtQuotes (HTML_TEMPLATES_container k2 cols))"
    using assms(1) by (intro quotedAfter_occurrence) auto
  then show False
    using assms
    by (simp add: HTML_TEMPLATES_container_def numberToString_quoteFree
          splitAtQuotes_splitAcc splitAcc_skip toUpperCase_quoteFree suffix_to_prefix)
qed

lemma containerExists_category_block:
  assumes \<open>CHR ''"'' \<notin> set k1\<close> \<open>CHR ''"'' \<notin> set (key cat)\<close> \<open>CHR ''"'' \<notin> set (accent cat)\<close>
  shows "\<not> containerExists (HTML_TEMPLATES_category cat lay) k1"
proof
  assume "containerExists (HTML_TEMPLATES_category cat lay) k1"
  then have \<open>includes_js (HTML_TEMPLATES_category cat lay)
      (''id='' @ CHR ''"'' # k1 @ ''-container'' @ [CHR ''"''])\<close>
    by (simp add: containerExists_def)
  then have "quotedAfter ''id='' k1 ''-container'' (splitAtQuotes (HTML_TEMPLATES_category cat lay))"
    using assms(1) by (intro quotedAfter_occurrence) auto
  then show False
    using assms
    by (simp add: HTML_TEMPLATES_category_def layoutClassOf_quoteFree contentClassOf_quoteFree
          splitAtQuotes_splitAcc splitAcc_skip toUpperCase_quoteFree escapeHtml_quoteFree
          suffix_to_prefix)
qed

lemma categoryExists_container_block:
  assumes \<open>CHR ''"'' \<notin> set k1\<close> \<open>CHR ''"'' \<notin> set k2\<close>
  shows "\<not> categoryExists (HTML_TEMPLATES_container k2 cols) k1"
proof
  assume "categoryExists (HTML_TEMPLATES_container k2 cols) k1"
  then have \<open>includes_js (HTML_TEMPLATES_container k2 cols)
      (''id='' @ CHR ''"'' # k1 @ ''-section'' @ [CHR ''"''])\<close>
    by (simp add: categoryExists_def)
  then have "quotedAfter ''id='' k1 ''-section'' (splitAtQuotes (HTML_TEMPLATES_container k2 cols))"
    using assms(1) by (intro quotedAfter_occurrence) auto
  then show False
    using assms
    by (simp add: HTML_TEMPLATES_container_def numberToString_quoteFree
          splitAtQuotes_splitAcc splitAcc_skip toUpperCase_quoteFree suffix_to_prefix)
qed

lemma categoryExists_own_key: "categoryExists (HTML_TEMPLATES_category cat lay) (key cat)"
  by (simp add: categoryExists_def HTML_TEMPLATES_category_def includes_search)

lemma containerExists_own_key: "containerExists (HTML_TEMPLATES_container k cols) k"
  by (simp add: containerExists_def HTML_TEMPLATES_container_def includes_search)

lemma stripPrefix_SomeD: "stripPrefix p s = Some r \<Longrightarrow> s = p @ r"
  by (auto simp: stripPrefix_def prefix_def split: if_splits)

lemma stripPrefix_append: "stripPrefix p (p @ r) = Some r"
  by (simp add: stripPrefix_def)

lemma endsWith_D: "endsWith s p \<Longrightarrow> s = take (length s - length p) s @ p"
  by (metis append_take_drop_id endsWith_def)

lemma endsWith_append: "endsWith (a @ p) p"
  by (simp add: endsWith_def)

lemma isSpace_not_isWord: "isSpace c \<Longrightarrow> \<not> isWord c"
  by (auto simp: isSpace_def isWord_def)

lemma isWord_not_quote: \<open>isWord c \<Longrightarrow> c \<noteq> CHR ''"''\<close>
  by (auto simp: isWord_def)

lemma takeWhile_run: "list_all P (takeWhile P s)"
  by (induction s) auto

lemma sectionRegex_SomeD:
  assumes "sectionRegex s = Some ((lc, a, k), rest)"
  shows "\<exists>w sp. s = sectionText w sp a k @ rest \<and> lc = ''section-'' @ w \<and> sectionParts w sp a k"
proof -
  from assms obtain s1 where s1: \<open>stripPrefix ''<section class="section-'' s = Some s1\<close>
    by (auto simp: sectionRegex_def split: option.splits)
  define w where "w = takeWhile isWord s1"
  define s2 where "s2 = dropWhile isWord s1"
  define sp where "sp = takeWhile isSpace s2"
  define s3 where "s3 = dropWhile isSpace s2"
  from assms s1 have ne1: "w \<noteq> []" "sp \<noteq> []"
    by (auto simp: sectionRegex_def Let_def w_def s2_def sp_def split: option.splits if_splits)
  from assms s1 ne1 obtain s4 where s4: "stripPrefix ''accent-'' s3 = Some s4"
    by (auto simp: sectionRegex_def Let_def w_def s2_def sp_def s3_def split: option.splits if_splits)
  define a' where "a' = takeWhile isWord s4"
  define s5 where "s5 = dropWhile isWord s4"
  from assms s1 ne1 s4 have ne2: "a' \<noteq> []"
    by (auto simp: sectionRegex_def Let_def w_def s2_def sp_def s3_def a'_def
        split: option.splits if_splits)
  from assms s1 ne1 s4 ne2 obtain s6 where s6: \<open>stripPrefix ''" id="'' s5 = Some s6\<close>
    by (auto simp: sectionRegex_def Let_def w_def s2_def sp_def s3_def a'_def s5_def
        split: option.splits if_splits)
  define run where \<open>run = takeWhile (\<lambda>c. c \<noteq> CHR ''"'') s6\<close>
  define s7 where \<open>s7 = dropWhile (\<lambda>c. c \<noteq> CHR ''"'') s6\<close>
  from assms s1 ne1 s4 ne2 s6
  have fin: "length ''-section'' < length run" "endsWith run ''-section''" \<open>prefix ''">'' s7\<close>
    "lc = ''section-'' @ w" "a = a'" "k = take (length run - length ''-section'') run"
    "rest = drop 2 s7"
    by (auto simp: sectionRegex_def Let_def w_def s2_def sp_def s3_def a'_def s5_def run_def s7_def
        split: option.splits if_splits)
  have runk: "run = k @ ''-section''"
    using endsWith_D [OF fin(2)] fin(6) by simp
  have s7r: \<open>s7 = ''">'' @ rest\<close>
    using fin(3,7) by (auto simp: prefix_def)
  have "s1 = w @ s2" "s2 = sp @ s3" "s4 = a' @ s5" "s6 = run @ s7"
    by (simp_all add: w_def s2_def sp_def s3_def a'_def s5_def run_def s7_def)
  with stripPrefix_SomeD [OF s1] stripPrefix_SomeD [OF s4] stripPrefix_SomeD [OF s6] runk s7r fin(5)
  have shape: "s = sectionText w sp a k @ rest"
    by (simp add: sectionText_def)
  have "list_all (\<lambda>c. c \<noteq> CHR 0x22) run"
    unfolding run_def by (rule takeWhile_run)
  then have \<open>CHR ''"'' \<notin> set k\<close>
    unfolding runk by (auto simp: list_all_iff)
  moreover have "k \<noteq> []"
    using fin(1) runk by auto
  moreover have "list_all isWord w" "list_all isSpace sp" "list_all isWord a"
    unfolding w_def sp_def fin(5) a'_def by (rule takeWhile_run)+
  ultimately have "sectionParts w sp a k"
    using ne1 ne2 fin(5) by (simp add: sectionParts_def)
  with shape fin(4) show ?thesis by blast
qed

lemma takeWhile_stop:
  "list_all P xs \<Longrightarrow> \<not> P y \<Longrightarrow> takeWhile P (xs @ y # ys) = xs"
  by (induction xs) auto

lemma dropWhile_stop:
  "list_all P xs \<Longrightarrow> \<not> P y \<Longrightarrow> dropWhile P (xs @ y # ys) = y # ys"
  by (induction xs) auto

lemma sectionRegex_I:
  assumes "sectionParts w sp a k"
  shows "sectionRegex (sectionText w sp a k @ rest) = Some ((''section-'' @ w, a, k), rest)"
proof -
  from assms have p: "w \<noteq> []" "list_all isWord w" "sp \<noteq> []" "list_all isSpace sp"
    "a \<noteq> []" "list_all isWord a" "k \<noteq> []" \<open>CHR ''"'' \<notin> set k\<close>
    by (simp_all add: sectionParts_def)
  obtain c sp' where sp: "sp = c # sp'" "isSpace c"
    using p(3,4) by (cases sp) auto
  have nw: "\<not> isWord c" using sp(2) by (rule isSpace_not_isWord)
  have q: \<open>list_all (\<lambda>c. c \<noteq> CHR ''"'') (k @ ''-section'')\<close>
    using p(8) by (auto simp: list_all_iff)
  have t1: "takeWhile isWord (w @ sp @ r) = w" "dropWhile isWord (w @ sp @ r) = sp @ r" for r
    using takeWhile_stop [OF p(2) nw] dropWhile_stop [OF p(2) nw] sp(1) by simp_all
  have t2: "takeWhile isSpace (sp @ ''accent-'' @ r) = sp"
    "dropWhile isSpace (sp @ ''accent-'' @ r) = ''accent-'' @ r" for r
    using takeWhile_stop [OF p(4), of "CHR ''a''"] dropWhile_stop [OF p(4), of "CHR ''a''"]
    by (simp_all add: isSpace_def)
  have t3: \<open>takeWhile isWord (a @ ''" id="'' @ r) = a\<close>
    \<open>dropWhile isWord (a @ ''" id="'' @ r) = ''" id="'' @ r\<close> for r
    using takeWhile_stop [OF p(6), of "CHR 0x22"] dropWhile_stop [OF p(6), of "CHR 0x22"]
    by (simp_all add: isWord_def)
  have t4: \<open>takeWhile (\<lambda>c. c \<noteq> CHR ''"'') ((k @ ''-section'') @ ''">'' @ r) = k @ ''-section''\<close>
    \<open>dropWhile (\<lambda>c. c \<noteq> CHR ''"'') ((k @ ''-section'') @ ''">'' @ r) = ''">'' @ r\<close> for r
    using takeWhile_stop [OF q, of "CHR 0x22"] dropWhile_stop [OF q, of "CHR 0x22"]
    by simp_all
  have e: "endsWith (k @ ''-section'') ''-section''"
    by (rule endsWith_append)
  have s: \<open>sectionText w sp a k @ rest
      = ''<section class="section-'' @ (w @ sp @ ''accent-'' @ (a @ ''" id="'' @ ((k @ ''-section'') @ ''">'' @ rest)))\<close>
    by (simp add: sectionText_def)
  show ?thesis
    unfolding s sectionRegex_def stripPrefix_append
    using p(1,3,5,7) e
    by (simp add: t1 t2 [unfolded append_Cons append_Nil] stripPrefix_def Let_def
          t3 [unfolded append_Cons append_Nil] t4 [unfolded append_Cons append_Nil] del: append_assoc)
qed

lemma consumingD: "consuming m \<Longrightarrow> m s = Some (g, rest) \<Longrightarrow> \<exists>t. t \<noteq> [] \<and> s = t @ rest"
  unfolding consuming_def by blast

lemma regexMatchAll_Cons_Some:
  assumes "consuming m" "m (c # cs) = Some (g, rest)"
  shows "regexMatchAll m (c # cs) = g # regexMatchAll m rest"
proof -
  from consumingD [OF assms] obtain t where "t \<noteq> []" "c # cs = t @ rest" by blast
  then have "length rest \<le> length cs" by (cases t) auto
  with assms(2) show ?thesis by simp
qed

lemma regexMatchAll_mem:
  assumes "consuming m"
  shows "g \<in> set (regexMatchAll m s) \<Longrightarrow> \<exists>pre s' rest. s = pre @ s' \<and> m s' = Some (g, rest)"
proof (induction s rule: length_induct)
  case (1 s)
  show ?case
  proof (cases s)
    case Nil
    with 1(2) show ?thesis by simp
  next
    case (Cons c cs)
    show ?thesis
    proof (cases "m (c # cs)")
      case None
      with 1(2) Cons have "g \<in> set (regexMatchAll m cs)" by simp
      with 1(1) Cons obtain pre s' rest where "cs = pre @ s'" "m s' = Some (g, rest)" by auto
      then have "s = (c # pre) @ s'" "m s' = Some (g, rest)" using Cons by simp_all
      then show ?thesis by blast
    next
      case (Some r)
      obtain g0 rest0 where r: "r = (g0, rest0)" by (cases r)
      from consumingD [OF assms] Some r obtain t where t: "t \<noteq> []" "c # cs = t @ rest0" by blast
      have all: "regexMatchAll m (c # cs) = g0 # regexMatchAll m rest0"
        using regexMatchAll_Cons_Some [OF assms] Some r by simp
      show ?thesis
      proof (cases "g = g0")
        case True
        with Some r Cons have "s = [] @ s" "m s = Some (g, rest0)" by simp_all
        then show ?thesis by blast
      next
        case False
        with 1(2) Cons all have "g \<in> set (regexMatchAll m rest0)" by simp
        moreover have "length rest0 < length s" using t Cons by (cases t) auto
        ultimately obtain pre s' rest where "rest0 = pre @ s'" "m s' = Some (g, rest)"
          using 1(1) by blast
        then have "s = (t @ pre) @ s'" "m s' = Some (g, rest)" using t Cons by simp_all
        then show ?thesis by blast
      qed
    qed
  qed
qed

lemma consuming_sectionRegex: "consuming sectionRegex"
  unfolding consuming_def
proof (intro allI impI)
  fix s g rest
  assume a: "sectionRegex s = Some (g, rest)"
  obtain lc a' k where g: "g = (lc, a', k)" by (cases g)
  from sectionRegex_SomeD [OF a [unfolded g]] obtain w sp where
    "s = sectionText w sp a' k @ rest" by blast
  moreover have "sectionText w sp a' k \<noteq> []" by (simp add: sectionText_def)
  ultimately show "\<exists>t. t \<noteq> [] \<and> s = t @ rest" by blast
qed

lemma sectionText_token: \<open>includes_js (sectionText w sp a k @ rest) (''id="'' @ k @ ''-section"'')\<close>
  by (simp add: sectionText_def includes_search)

lemma includes_js_prepend: "includes_js s p \<Longrightarrow> includes_js (pre @ s) p"
  by (simp add: includes_js_skip)

lemma key_categoryOfMatch: "key (categoryOfMatch d (lc, a, k)) = k"
  by (simp add: categoryOfMatch_def Let_def)

lemma extractCategories_exists:
  assumes "cat \<in> set (extractCategories d)"
  shows "categoryExists d (key cat)"
proof -
  from assms obtain g where g: "g \<in> set (regexMatchAll sectionRegex d)" "cat = categoryOfMatch d g"
    by (auto simp: extractCategories_def)
  obtain lc a k where gk: "g = (lc, a, k)" by (cases g)
  from regexMatchAll_mem [OF consuming_sectionRegex g(1)] obtain pre s' rest where
    d: "d = pre @ s'" and m: "sectionRegex s' = Some (g, rest)" by blast
  from sectionRegex_SomeD [OF m [unfolded gk]] obtain w sp where
    "s' = sectionText w sp a k @ rest" by blast
  then have "includes_js d (''id='' @ CHR 0x22 # k @ ''-section'' @ [CHR 0x22])"
    unfolding d using sectionText_token [of w sp a k rest] by (simp add: includes_js_prepend)
  then show ?thesis
    using g(2) gk by (simp add: categoryExists_def key_categoryOfMatch)
qed

lemma toUpperChar_keyChar:
  assumes "keyChar c"
  shows "toUpperChar c \<in> set ''ABCDEFGHIJKLMNOPQRSTUVWXYZ0123456789_-''"
proof -
  have "list_all (\<lambda>c. toUpperChar c \<in> set ''ABCDEFGHIJKLMNOPQRSTUVWXYZ0123456789_-'')
          ''abcdefghijklmnopqrstuvwxyz0123456789_-''"
    by code_simp
  then have "\<forall>c\<in>set ''abcdefghijklmnopqrstuvwxyz0123456789_-''.
      toUpperChar c \<in> set ''ABCDEFGHIJKLMNOPQRSTUVWXYZ0123456789_-''"
    unfolding list_all_iff .
  moreover from assms have "c \<in> set ''abcdefghijklmnopqrstuvwxyz0123456789_-''"
    unfolding keyChar_def .
  ultimately show ?thesis by (rule bspec)
qed

lemma toLower_toUpper_keyChar:
  assumes "keyChar c"
  shows "toLowerChar (toUpperChar c) = c"
proof -
  have "list_all (\<lambda>c. toLowerChar (toUpperChar c) = c) ''abcdefghijklmnopqrstuvwxyz0123456789_-''"
    by code_simp
  then have "\<forall>c\<in>set ''abcdefghijklmnopqrstuvwxyz0123456789_-''. toLowerChar (toUpperChar c) = c"
    unfolding list_all_iff .
  moreover from assms have "c \<in> set ''abcdefghijklmnopqrstuvwxyz0123456789_-''"
    unfolding keyChar_def .
  ultimately show ?thesis by (rule bspec)
qed

lemma toUpperCase_inj:
  assumes "list_all keyChar k1" "list_all keyChar k2" "toUpperCase k1 = toUpperCase k2"
  shows "k1 = k2"
proof -
  have "map toLowerChar (map toUpperChar k) = k" if "list_all keyChar k" for k
    using that by (induction k) (simp_all add: toLower_toUpper_keyChar)
  then have "map toLowerChar (toUpperCase k) = k" if "list_all keyChar k" for k
    using that by (simp add: toUpperCase_map keyChar_not_sharp)
  with assms show ?thesis by metis
qed

lemma toUpperCase_plain:
  assumes "list_all keyChar k"
  shows "set (toUpperCase k) \<inter> {CHR ''<'', CHR ''>'', CHR 0x22, CHR '' '', CHR 0x0A} = {}"
proof -
  have "set (map toUpperChar k) \<inter> {CHR ''<'', CHR ''>'', CHR 0x22, CHR '' '', CHR 0x0A} = {}"
    using assms
  proof (induction k)
    case Nil
    then show ?case by simp
  next
    case (Cons c k)
    then show ?case using toUpperChar_keyChar [of c] by auto
  qed
  then show ?thesis
    using assms by (simp add: toUpperCase_map keyChar_not_sharp)
qed

lemma prefix_drop_nth:
  assumes "prefix xs (drop n d)" "i < length xs"
  shows "d ! (n + i) = xs ! i"
proof -
  from assms(1) obtain zs where z: "drop n d = xs @ zs" by (auto simp: prefix_def)
  then have "n + i < length d"
    using assms(2) by (metis add.commute length_append length_drop less_diff_conv trans_less_add1)
  then have "d ! (n + i) = drop n d ! i" by simp
  with z assms(2) show ?thesis by (simp add: nth_append)
qed

lemma occurrences_disjoint:
  assumes "prefix (x # P) (drop p d)" "prefix (x # Q) (drop q d)" "x \<notin> set P" "p < q"
  shows "p + length (x # P) \<le> q"
proof (rule ccontr)
  assume "\<not> p + length (x # P) \<le> q"
  then have i: "q - p < length (x # P)" "0 < q - p" using assms(4) by auto
  from prefix_drop_nth [OF assms(1) i(1)] assms(4) have "d ! q = (x # P) ! (q - p)" by simp
  also have "\<dots> = P ! (q - p - 1)" using i(2) by (simp add: nth_Cons')
  finally have "d ! q \<in> set P" using i by (auto intro!: nth_mem)
  moreover from prefix_drop_nth [OF assms(2), of 0] have "d ! q = x" by simp
  ultimately show False using assms(3) by simp
qed

lemma linksEndMarker_shape:
  assumes "validKey k"
  shows "\<exists>P. linksEndMarker k = CHR ''<'' # P \<and> CHR ''<'' \<notin> set P"
  using toUpperCase_plain [of k] assms
  by (auto simp: linksEndMarker_def validKey_def)

lemma linksEndMarker_prefix_eq:
  assumes "validKey k1" "validKey k2" "prefix (linksEndMarker k1) (linksEndMarker k2)"
  shows "k1 = k2"
proof -
  let ?g = "\<lambda>c. c \<noteq> CHR ''>''"
  from assms(3) obtain z where z: "linksEndMarker k2 = linksEndMarker k1 @ z"
    by (auto simp: prefix_def)
  have tw: "takeWhile ?g (''<!-- '' @ toUpperCase k @ ''_LINKS_END -->'' @ r)
              = ''<!-- '' @ toUpperCase k @ ''_LINKS_END --''" if "validKey k" for k r
  proof -
    have "list_all ?g (''<!-- '' @ toUpperCase k @ ''_LINKS_END --'')"
      using toUpperCase_plain [of k] that by (auto simp: validKey_def list_all_iff)
    from takeWhile_stop [OF this, of "CHR ''>''" r] show ?thesis by simp
  qed
  have "takeWhile ?g (linksEndMarker k2) = takeWhile ?g (linksEndMarker k1 @ z)"
    using z by simp
  then have "''<!-- '' @ toUpperCase k2 @ ''_LINKS_END --'' = ''<!-- '' @ toUpperCase k1 @ ''_LINKS_END --''"
    using tw [OF assms(2), of "[]"] tw [OF assms(1), of z] by (simp add: linksEndMarker_def)
  then have "toUpperCase k2 = toUpperCase k1" by simp
  with assms(1,2) show ?thesis using toUpperCase_inj [of k1 k2] by (simp add: validKey_def)
qed

lemma markers_apart:
  assumes "validKey k1" "validKey k2" "k1 \<noteq> k2"
    and "prefix (linksEndMarker k1) (drop p d)" "prefix (linksEndMarker k2) (drop q d)"
  shows "p + length (linksEndMarker k1) \<le> q \<or> q + length (linksEndMarker k2) \<le> p"
proof -
  from linksEndMarker_shape [OF assms(1)] obtain P where
    P: "linksEndMarker k1 = CHR ''<'' # P" "CHR ''<'' \<notin> set P" by blast
  from linksEndMarker_shape [OF assms(2)] obtain Q where
    Q: "linksEndMarker k2 = CHR ''<'' # Q" "CHR ''<'' \<notin> set Q" by blast
  consider "p < q" | "q < p" | "p = q" by linarith
  then show ?thesis
  proof cases
    case 1
    from occurrences_disjoint [OF assms(4) [unfolded P(1)] assms(5) [unfolded Q(1)] P(2) 1]
    show ?thesis by (simp add: P(1))
  next
    case 2
    from occurrences_disjoint [OF assms(5) [unfolded Q(1)] assms(4) [unfolded P(1)] Q(2) 2]
    show ?thesis by (simp add: Q(1))
  next
    case 3
    with assms(4,5) have "prefix (linksEndMarker k1) (linksEndMarker k2)
        \<or> prefix (linksEndMarker k2) (linksEndMarker k1)"
      using prefix_same_cases by blast
    with assms(1,2,3) show ?thesis
      using linksEndMarker_prefix_eq [of k1 k2] linksEndMarker_prefix_eq [of k2 k1] by auto
  qed
qed

section \<open>Facts about the document composed by the editor\<close>

lemma sectionRegex_needs_lt: "sectionRegex s = Some r \<Longrightarrow> \<exists>t. s = CHR ''<'' # t"
  by (auto simp: sectionRegex_def stripPrefix_def prefix_def split: option.splits if_splits)

lemma regexMatchAll_skip:
  assumes "\<And>s r. m s = Some r \<Longrightarrow> \<exists>t. s = c0 # t" "c0 \<notin> set x"
  shows "regexMatchAll m (x @ r) = regexMatchAll m r"
  using assms(2)
proof (induction x)
  case Nil
  then show ?case by simp
next
  case (Cons c x)
  have "m ((c # x) @ r) = None"
  proof (cases "m ((c # x) @ r)")
    case (Some a)
    from assms(1) [OF Some] Cons(2) show ?thesis by auto
  qed simp
  with Cons show ?case by simp
qed

lemma scan_section_skip:
  "CHR ''<'' \<notin> set x \<Longrightarrow> regexMatchAll sectionRegex (x @ r) = regexMatchAll sectionRegex r"
  using regexMatchAll_skip [of sectionRegex "CHR ''<''" x r] sectionRegex_needs_lt by blast

lemma sectionRegex_no: \<open>\<not> prefix ''<section class="section-'' s \<Longrightarrow> sectionRegex s = None\<close>
  by (simp add: sectionRegex_def stripPrefix_def)

lemma scan_section_step:
  \<open>\<not> prefix ''<section class="section-'' (c # cs) \<Longrightarrow>
     regexMatchAll sectionRegex (c # cs) = regexMatchAll sectionRegex cs\<close>
  by (simp add: sectionRegex_no)

lemma numberToString_ltFree: "CHR ''<'' \<notin> set (numberToString n)"
  using numberToString_digits [of n] by auto

lemma escapeHtml_ltFree: "CHR ''<'' \<notin> set (escapeHtml s)"
  using escapeHtml_safe [of s] by auto

lemma toUpperCase_ltFree: "validKey k \<Longrightarrow> CHR ''<'' \<notin> set (toUpperCase k)"
  using toUpperCase_plain [of k] by (auto simp: validKey_def)

lemma keyChar_lt: "keyChar c \<Longrightarrow> c \<noteq> CHR ''<''"
  by (auto simp: keyChar_def)

lemma validKey_ltFree: "validKey k \<Longrightarrow> CHR ''<'' \<notin> set k"
  using keyChar_lt by (auto simp: validKey_def list_all_iff)

lemma isWord_lt: "isWord c \<Longrightarrow> c \<noteq> CHR ''<''"
  by (auto simp: isWord_def)

lemma isWord_ltFree: "list_all isWord a \<Longrightarrow> CHR ''<'' \<notin> set a"
  using isWord_lt by (auto simp: list_all_iff)

lemma encodeURIComponent_ltFree: "CHR ''<'' \<notin> set (encodeURIComponent s)"
proof -
  have h: "hexDigit n \<noteq> CHR ''<''" for n
  proof -
    have "hexDigit n \<in> set ''0123456789ABCDEF''"
      unfolding hexDigit_def by (rule nth_mem) simp
    then show ?thesis by auto
  qed
  have p: "CHR ''<'' \<notin> set (percentEscape b)" for b
    using h [of "b div 16"] h [of "b mod 16"]
    by (simp add: percentEscape_def eq_commute [of "CHR ''<''"])
  have u: "\<not> uriUnreserved (CHR ''<'')"
    by code_simp
  have "CHR ''<'' \<notin> set (encodeChar c)" for c
  proof (cases "uriUnreserved c")
    case True
    with u have "c \<noteq> CHR ''<''" by auto
    with True show ?thesis by (simp add: encodeChar_def)
  next
    case False
    then show ?thesis using p by (simp add: encodeChar_def)
  qed
  then show ?thesis
    unfolding encodeURIComponent_def by (simp only: set_concat set_map) blast
qed

lemma sectionRegex_litThen:
  \<open>sectionRegex = litThen ''<section class="section-''
     (\<lambda>s1. let w = takeWhile isWord s1; s2 = dropWhile isWord s1;
              sp = takeWhile isSpace s2; s3 = dropWhile isSpace s2 in
          if w = [] \<or> sp = [] then None
          else (case stripPrefix ''accent-'' s3 of
             None \<Rightarrow> None
           | Some s4 \<Rightarrow>
               let a = takeWhile isWord s4; s5 = dropWhile isWord s4 in
               if a = [] then None
               else (case stripPrefix ''" id="'' s5 of
                  None \<Rightarrow> None
                | Some s6 \<Rightarrow>
                    let run = takeWhile (\<lambda>c. c \<noteq> CHR ''"'') s6;
                        s7 = dropWhile (\<lambda>c. c \<noteq> CHR ''"'') s6 in
                    if length ''-section'' < length run \<and> endsWith run ''-section''
                       \<and> prefix ''">'' s7
                    then Some ((''section-'' @ w, a,
                                 take (length run - length ''-section'') run), drop 2 s7)
                    else None)))\<close>
  by (rule ext) (simp only: sectionRegex_def litThen_def)

lemma litThen_Cons:
  "litThen (c0 # L) body (c # cs) =
     (if c = c0 then (case stripPrefix L cs of None \<Rightarrow> None | Some s1 \<Rightarrow> body s1) else None)"
  by (auto simp: litThen_def stripPrefix_def)

lemma scan_litThen_Cons:
  "regexMatchAll (litThen (c0 # L) body) (c # cs) =
     (if c = c0 then
        (case stripPrefix L cs of
           None \<Rightarrow> regexMatchAll (litThen (c0 # L) body) cs
         | Some s1 \<Rightarrow>
             (case body s1 of
                None \<Rightarrow> regexMatchAll (litThen (c0 # L) body) cs
              | Some (g, rest) \<Rightarrow>
                  g # regexMatchAll (litThen (c0 # L) body)
                        (if length rest \<le> length cs then rest else cs)))
      else regexMatchAll (litThen (c0 # L) body) cs)"
  by (simp add: litThen_Cons split: option.splits)

lemma scan_litThen_skip:
  assumes "c0 \<notin> set x"
  shows "regexMatchAll (litThen (c0 # L) body) (x @ r) = regexMatchAll (litThen (c0 # L) body) r"
proof (rule regexMatchAll_skip [OF _ assms])
  fix s r'
  assume "litThen (c0 # L) body s = Some r'"
  then show "\<exists>t. s = c0 # t"
    by (cases s) (auto simp: litThen_def stripPrefix_def split: option.splits if_splits)
qed

lemma stripPrefix_Cons:
  "stripPrefix (p # ps) (c # cs) = (if p = c then stripPrefix ps cs else None)"
  by (simp add: stripPrefix_def)

lemma stripPrefix_Nil: "stripPrefix [] s = Some s"
  by (simp add: stripPrefix_def)

lemma stripPrefix_Cons_Nil: "stripPrefix (p # ps) [] = None"
  by (simp add: stripPrefix_def)

lemmas scan_rules = scan_litThen_Cons scan_litThen_skip stripPrefix_Cons stripPrefix_Nil
  stripPrefix_Cons_Nil

lemma includes_js_skip_first:
  assumes "c0 \<notin> set x"
  shows "includes_js (x @ r) (c0 # p) = includes_js r (c0 # p)"
  using assms
proof (induction x)
  case Nil
  then show ?case by simp
next
  case (Cons c x)
  then show ?case by (simp add: includes_js_Cons_iff)
qed

lemma includes_js_Nil: "includes_js [] (c # p) = False"
  by (simp add: includes_js_def)

lemma indexOf_first:
  assumes "\<not> includes_js (u @ butlast p) p" "p \<noteq> []"
  shows "indexOf (u @ p @ v) p = Some (length u)"
proof -
  obtain i where i: "indexOf (u @ p @ v) p = Some i"
    using indexOf_append_prefix_Some by blast
  from indexOf_SomeD [OF i] have least: "\<forall>j<i. \<not> prefix p (drop j (u @ p @ v))"
    and here: "prefix p (drop i (u @ p @ v))" by auto
  have "\<not> length u < i"
    using least by auto
  moreover have "\<not> i < length u"
  proof
    assume lt: "i < length u"
    from here obtain z where z: "drop i (u @ p @ v) = p @ z" by (auto simp: prefix_def)
    have "drop i (u @ p @ v) = drop i u @ p @ v" using lt by simp
    with z have e: "drop i u @ p @ v = p @ z" by simp
    have p1: "prefix p (drop i u @ p @ v)" using e by (simp add: prefix_def)
    have "prefix (butlast p) p" by (simp add: prefixeq_butlast)
    then have "prefix (butlast p) (p @ v)" by (rule prefix_prefix)
    then have p2: "prefix (drop i u @ butlast p) (drop i u @ p @ v)"
      by simp
    have "length p \<le> length (drop i u @ butlast p)"
      using lt assms(2) by (cases p rule: rev_cases) auto
    with p1 p2 have "prefix p (drop i u @ butlast p)"
      by (rule prefix_length_prefix)
    then obtain w where "drop i u @ butlast p = p @ w" by (auto simp: prefix_def)
    then have "u @ butlast p = take i u @ p @ w"
      by (metis append.assoc append_take_drop_id)
    then have "includes_js (u @ butlast p) p"
      by (metis includes_js_appendI)
    with assms(1) show False by simp
  qed
  ultimately show ?thesis using i by simp
qed

lemma take_length_append: "take (length u) (u @ r) = u"
  by simp

lemma drop_length_append: "drop (length u) (u @ r) = r"
  by simp

lemma addLinkToCategory_at:
  assumes "categoryExists d k"
    and "find (\<lambda>c. key c = k) (extractCategories d) = Some cat"
    and "indexOf d (linksEndMarker k) = Some p"
  shows "addLinkToCategory tab k (newWikiContentManager d)
           = (None, \<lparr> content = take p d @ HTML_TEMPLATES_link tab (layout cat) @ ''\<newline>      ''
                                   @ drop p d,
                      analyzer = d \<rparr>)"
  using assms
  by (simp add: addLinkToCategory_def newWikiContentManager_def linksEndMarker_def)

lemma addCategory_at:
  assumes "\<not> categoryExists d (key cat)" "containerExists d (containerKey cat)"
    and "d = u0 @ start @ w @ end' @ v"
    and "start = ''<!-- CONTAINER_'' @ toUpperCase (containerKey cat) @ ''_CONTENT_START -->''"
    and "end' = ''<!-- CONTAINER_'' @ toUpperCase (containerKey cat) @ ''_CONTENT_END -->''"
    and "\<not> includes_js (u0 @ butlast start) start"
    and "\<not> includes_js ((u0 @ start @ w) @ butlast end') end'"
    and "trim w = []"
  shows "addCategory cat \<lparr> content = d, analyzer = d \<rparr>
           = (None, \<lparr> content = u0 @ start @ w @ HTML_TEMPLATES_category cat (layout cat)
                                   @ ''\<newline>  '' @ end' @ v,
                      analyzer = u0 @ start @ w @ HTML_TEMPLATES_category cat (layout cat)
                                   @ ''\<newline>  '' @ end' @ v \<rparr>)"
proof -
  have s: "start \<noteq> []" "end' \<noteq> []" using assms(4,5) by auto
  have i1: "indexOf d start = Some (length u0)"
    unfolding assms(3) using indexOf_first [OF assms(6) s(1), of "w @ end' @ v"] by simp
  have i2: "indexOf d end' = Some (length (u0 @ start @ w))"
    unfolding assms(3) using indexOf_first [OF assms(7) s(2), of v] by simp
  have sub: "substring d (length u0 + length start) (length (u0 @ start @ w)) = w"
    unfolding assms(3) substring_def by simp
  have t: "substring d 0 (length (u0 @ start @ w)) = u0 @ start @ w"
    unfolding assms(3) substring_def by simp
  have dr: "drop (length (u0 @ start @ w)) d = end' @ v"
    unfolding assms(3) by simp
  show ?thesis
    unfolding addCategory_def
    using assms(1,2) i1 i2 [unfolded assms(5)] i1 [unfolded assms(4)]
      sub [unfolded assms(4)] t dr assms(8)
    by (simp add: Let_def assms(4,5) del: length_append)
qed

lemma addContainer_empty:
  "addContainer k n cols (newWikiContentManager [])
     = (None, \<lparr> content = ''\<newline>'' @ HTML_TEMPLATES_container k cols,
                analyzer = ''\<newline>'' @ HTML_TEMPLATES_container k cols \<rparr>)"
  by (simp add: addContainer_def newWikiContentManager_def containerExists_def includes_js_def Let_def)

lemma validKey_quoteFree: \<open>validKey k \<Longrightarrow> CHR ''"'' \<notin> set k\<close>
proof -
  have "keyChar c \<Longrightarrow> c \<noteq> CHR 0x22" for c by (auto simp: keyChar_def)
  then show "validKey k \<Longrightarrow> CHR 0x22 \<notin> set k"
    by (auto simp: validKey_def list_all_iff)
qed

lemma categoryExists_after_container:
  assumes \<open>CHR ''"'' \<notin> set k1\<close> \<open>CHR ''"'' \<notin> set k2\<close>
  shows "\<not> categoryExists (''\<newline>'' @ HTML_TEMPLATES_container k2 cols) k1"
proof
  assume "categoryExists (''\<newline>'' @ HTML_TEMPLATES_container k2 cols) k1"
  then have \<open>includes_js (''\<newline>'' @ HTML_TEMPLATES_container k2 cols)
      (''id='' @ CHR ''"'' # k1 @ ''-section'' @ [CHR ''"''])\<close>
    by (simp add: categoryExists_def)
  then have "quotedAfter ''id='' k1 ''-section''
      (splitAtQuotes (''\<newline>'' @ HTML_TEMPLATES_container k2 cols))"
    using assms(1) by (intro quotedAfter_occurrence) auto
  then show False
    using assms
    by (simp add: HTML_TEMPLATES_container_def numberToString_quoteFree
          splitAtQuotes_splitAcc splitAcc_skip toUpperCase_quoteFree suffix_to_prefix)
qed

lemmas includes_walk = includes_js_Cons_iff includes_js_skip_first includes_js_Nil

lemma addCategory_after_container:
  assumes "validKey k" "validKey (key cat)" "containerKey cat = k"
  shows \<open>addCategory cat \<lparr> content = ''\<newline>'' @ HTML_TEMPLATES_container k cols,
                            analyzer = ''\<newline>'' @ HTML_TEMPLATES_container k cols \<rparr>
     = (None,
        \<lparr> content =
            (''\<newline><div class="layout-container layout-'' @ numberToString cols @ ''col" id="''
               @ k @ ''-container">\<newline>  <!-- Container: '' @ k @ '' -->\<newline>  '')
            @ (''<!-- CONTAINER_'' @ toUpperCase (containerKey cat) @ ''_CONTENT_START -->'')
            @ ''\<newline>  ''
            @ HTML_TEMPLATES_category cat (layout cat) @ ''\<newline>  ''
            @ (''<!-- CONTAINER_'' @ toUpperCase (containerKey cat) @ ''_CONTENT_END -->'')
            @ ''\<newline></div>\<newline>\<newline>'',
          analyzer =
            (''\<newline><div class="layout-container layout-'' @ numberToString cols @ ''col" id="''
               @ k @ ''-container">\<newline>  <!-- Container: '' @ k @ '' -->\<newline>  '')
            @ (''<!-- CONTAINER_'' @ toUpperCase (containerKey cat) @ ''_CONTENT_START -->'')
            @ ''\<newline>  ''
            @ HTML_TEMPLATES_category cat (layout cat) @ ''\<newline>  ''
            @ (''<!-- CONTAINER_'' @ toUpperCase (containerKey cat) @ ''_CONTENT_END -->'')
            @ ''\<newline></div>\<newline>\<newline>'' \<rparr>)\<close>
proof (rule addCategory_at)
  show "\<not> categoryExists (''\<newline>'' @ HTML_TEMPLATES_container k cols) (key cat)"
    using assms(1,2) by (intro categoryExists_after_container validKey_quoteFree)
  show "containerExists (''\<newline>'' @ HTML_TEMPLATES_container k cols) (containerKey cat)"
    using containerExists_after_append [of "[]" "''\<newline>''" k cols] assms(3) by simp
  show \<open>''\<newline>'' @ HTML_TEMPLATES_container k cols =
      (''\<newline><div class="layout-container layout-'' @ numberToString cols @ ''col" id="''
               @ k @ ''-container">\<newline>  <!-- Container: '' @ k @ '' -->\<newline>  '')
            @ (''<!-- CONTAINER_'' @ toUpperCase (containerKey cat) @ ''_CONTENT_START -->'')
            @ ''\<newline>  ''
            @ (''<!-- CONTAINER_'' @ toUpperCase (containerKey cat) @ ''_CONTENT_END -->'')
            @ ''\<newline></div>\<newline>\<newline>''\<close>
    by (simp add: HTML_TEMPLATES_container_def assms(3))
  show "trim ''\<newline>  '' = []"
    by (simp add: trim_def isSpace_def)
  show \<open>\<not> includes_js
      ((''\<newline><div class="layout-container layout-'' @ numberToString cols @ ''col" id="''
               @ k @ ''-container">\<newline>  <!-- Container: '' @ k @ '' -->\<newline>  '')
        @ butlast (''<!-- CONTAINER_'' @ toUpperCase (containerKey cat) @ ''_CONTENT_START -->''))
      (''<!-- CONTAINER_'' @ toUpperCase (containerKey cat) @ ''_CONTENT_START -->'')\<close>
    using assms
    by (simp add: includes_walk numberToString_ltFree validKey_ltFree toUpperCase_ltFree
          butlast_append)
  show \<open>\<not> includes_js
      (((''\<newline><div class="layout-container layout-'' @ numberToString cols @ ''col" id="''
               @ k @ ''-container">\<newline>  <!-- Container: '' @ k @ '' -->\<newline>  '')
        @ (''<!-- CONTAINER_'' @ toUpperCase (containerKey cat) @ ''_CONTENT_START -->'')
        @ ''\<newline>  '')
        @ butlast (''<!-- CONTAINER_'' @ toUpperCase (containerKey cat) @ ''_CONTENT_END -->''))
      (''<!-- CONTAINER_'' @ toUpperCase (containerKey cat) @ ''_CONTENT_END -->'')\<close>
    using assms
    by (simp add: includes_walk numberToString_ltFree validKey_ltFree toUpperCase_ltFree
          butlast_append)
qed simp_all

lemma sectionRegex_eq: \<open>sectionRegex = litThen ''<section class="section-'' sectionBody\<close>
  by (rule ext) (simp only: sectionRegex_def litThen_def sectionBody_def)

lemma containerRegex_eq:
  \<open>containerRegex = litThen ''<div class="layout-container layout-'' containerBody\<close>
  by (rule ext) (simp only: containerRegex_def litThen_def containerBody_def)

lemma divTextRegex_eq: "divTextRegex openTag e = litThen openTag (divBody e)"
  by (rule ext) (simp only: divTextRegex_def litThen_def divBody_def)

lemma exec_litThen_Cons:
  "regexExec (litThen (c0 # L) body) (c # cs) =
     (if c = c0 then
        (case stripPrefix L cs of
           None \<Rightarrow> regexExec (litThen (c0 # L) body) cs
         | Some s1 \<Rightarrow>
             (case body s1 of
                None \<Rightarrow> regexExec (litThen (c0 # L) body) cs
              | Some (g, rest) \<Rightarrow> Some g))
      else regexExec (litThen (c0 # L) body) cs)"
  by (simp add: litThen_Cons split: option.splits)

lemma exec_litThen_skip:
  assumes "c0 \<notin> set x"
  shows "regexExec (litThen (c0 # L) body) (x @ r) = regexExec (litThen (c0 # L) body) r"
  using assms
proof (induction x)
  case Nil
  then show ?case by simp
next
  case (Cons c x)
  then show ?case using exec_litThen_Cons [of c0 L body c "x @ r"] by auto
qed

lemma regexExec_hit: "m (c # cs) = Some (g, rest) \<Longrightarrow> regexExec m (c # cs) = Some g"
  by simp

lemma layoutClassOf_word: "layoutClassOf lay = ''section-'' @ layoutWord lay"
  by (simp add: layoutClassOf_def layoutWord_def)

lemma layoutWord_word: "layoutWord lay \<noteq> [] \<and> list_all isWord (layoutWord lay)"
  by (simp add: layoutWord_def isWord_def)

lemma containerRegex_I:
  assumes "digits \<noteq> []" "list_all isDigit digits" "k \<noteq> []" \<open>CHR ''"'' \<notin> set k\<close>
  shows "containerRegex (containerText digits k @ rest) = Some ((digits, k), rest)"
proof -
  have nd: "\<not> isDigit (CHR ''c'')" by (simp add: isDigit_def)
  have q: \<open>list_all (\<lambda>c. c \<noteq> CHR ''"'') (k @ ''-container'')\<close>
    using assms(4) by (auto simp: list_all_iff)
  have t1: \<open>takeWhile isDigit (digits @ ''col" id="'' @ r) = digits\<close>
    \<open>dropWhile isDigit (digits @ ''col" id="'' @ r) = ''col" id="'' @ r\<close> for r
    using takeWhile_stop [OF assms(2) nd] dropWhile_stop [OF assms(2) nd] by simp_all
  have t2: \<open>takeWhile (\<lambda>c. c \<noteq> CHR ''"'') ((k @ ''-container'') @ ''">'' @ r) = k @ ''-container''\<close>
    \<open>dropWhile (\<lambda>c. c \<noteq> CHR ''"'') ((k @ ''-container'') @ ''">'' @ r) = ''">'' @ r\<close> for r
    using takeWhile_stop [OF q, of "CHR 0x22"] dropWhile_stop [OF q, of "CHR 0x22"]
    by simp_all
  have e: "endsWith (k @ ''-container'') ''-container''"
    by (rule endsWith_append)
  have s: \<open>containerText digits k @ rest
      = ''<div class="layout-container layout-''
        @ (digits @ ''col" id="'' @ ((k @ ''-container'') @ ''">'' @ rest))\<close>
    by (simp add: containerText_def)
  show ?thesis
    unfolding s containerRegex_def stripPrefix_append
    using assms(1,3) e
    by (simp add: t1 [unfolded append_Cons append_Nil] stripPrefix_def Let_def
          t2 [unfolded append_Cons append_Nil] del: append_assoc)
qed

lemma divBody_I:
  assumes "CHR ''<'' \<notin> set t" "e \<or> t \<noteq> []"
  shows "divBody e (t @ ''</div>'' @ rest) = Some (t, rest)"
proof -
  have q: "list_all (\<lambda>c. c \<noteq> CHR ''<'') t"
    using assms(1) by (auto simp: list_all_iff)
  have "takeWhile (\<lambda>c. c \<noteq> CHR ''<'') (t @ ''</div>'' @ rest) = t"
    "dropWhile (\<lambda>c. c \<noteq> CHR ''<'') (t @ ''</div>'' @ rest) = ''</div>'' @ rest"
    using takeWhile_stop [OF q, of "CHR ''<''"] dropWhile_stop [OF q, of "CHR ''<''"]
    by simp_all
  with assms(2) show ?thesis
    by (simp add: divBody_def)
qed

lemma consuming_containerRegex: "consuming containerRegex"
  unfolding consuming_def
proof (intro allI impI)
  fix s g rest
  assume a: "containerRegex s = Some (g, rest)"
  then obtain s1 where s1: \<open>stripPrefix ''<div class="layout-container layout-'' s = Some s1\<close>
    by (auto simp: containerRegex_def split: option.splits)
  define d where "d = takeWhile isDigit s1"
  define s2 where "s2 = dropWhile isDigit s1"
  from a s1 obtain s3 where s3: \<open>stripPrefix ''col" id="'' s2 = Some s3\<close>
    by (auto simp: containerRegex_def Let_def s2_def split: option.splits if_splits)
  define run where \<open>run = takeWhile (\<lambda>c. c \<noteq> CHR ''"'') s3\<close>
  define s4 where \<open>s4 = dropWhile (\<lambda>c. c \<noteq> CHR ''"'') s3\<close>
  from a s1 s3 have r: "rest = drop 2 s4" \<open>prefix ''">'' s4\<close>
    by (auto simp: containerRegex_def Let_def s2_def s4_def split: option.splits if_splits)
  have e1: "s1 = d @ s2" by (simp add: d_def s2_def)
  have e2: "s3 = run @ s4" by (simp add: run_def s4_def)
  have e3: \<open>s4 = ''">'' @ rest\<close> using r by (auto simp: prefix_def)
  define t where \<open>t = ''<div class="layout-container layout-'' @ d @ ''col" id="'' @ run @ ''">''\<close>
  have "s = t @ rest"
    unfolding t_def stripPrefix_SomeD [OF s1] e1 stripPrefix_SomeD [OF s3] e2 e3 by simp
  moreover have "t \<noteq> []" by (simp add: t_def)
  ultimately show "\<exists>t. t \<noteq> [] \<and> s = t @ rest" by blast
qed

lemma composedDocument_shape:
  "composedDocument k cols cat tab =
     docBefore k cols @ sectionText (layoutWord (layout cat)) '' '' (accent cat) (key cat)
     @ catHeader cat @ HTML_TEMPLATES_link tab (layout cat) @ ''\<newline>      ''
     @ linksEndMarker (key cat) @ docEnd k"
  by (simp add: composedDocument_def docBefore_def sectionText_def catHeader_def docEnd_def
        linksEndMarker_def layoutClassOf_word)

lemma scan_section_docBefore:
  assumes "validKey k"
  shows "regexMatchAll sectionRegex (docBefore k cols @ x) = regexMatchAll sectionRegex x"
  using assms unfolding sectionRegex_eq
  by (simp add: docBefore_def scan_rules numberToString_ltFree validKey_ltFree toUpperCase_ltFree
        del: regexMatchAll.simps)

lemma layoutClassOf_ltFree: "CHR ''<'' \<notin> set (layoutClassOf lay)"
  by (simp add: layoutClassOf_def)

lemma contentClassOf_ltFree: "CHR ''<'' \<notin> set (contentClassOf lay)"
  by (simp add: contentClassOf_def)

lemma scan_section_catHeader:
  "regexMatchAll sectionRegex (catHeader cat @ x) = regexMatchAll sectionRegex x"
  unfolding sectionRegex_eq
  by (simp add: catHeader_def scan_rules escapeHtml_ltFree layoutClassOf_ltFree
        contentClassOf_ltFree del: regexMatchAll.simps)

lemma scan_section_link:
  assumes "CHR ''<'' \<notin> set (url tab)" "CHR ''<'' \<notin> set (iconUrl tab)"
  shows "regexMatchAll sectionRegex (HTML_TEMPLATES_link tab lay @ x) = regexMatchAll sectionRegex x"
  using assms unfolding sectionRegex_eq
  by (simp add: HTML_TEMPLATES_link_def scan_rules
        escapeHtml_ltFree encodeURIComponent_ltFree del: regexMatchAll.simps)

lemma scan_section_marker_docEnd:
  assumes "validKey k" "validKey ck"
  shows "regexMatchAll sectionRegex (''\<newline>      '' @ linksEndMarker ck @ docEnd k) = []"
  using assms unfolding sectionRegex_eq
  by (simp add: docEnd_def linksEndMarker_def scan_rules validKey_ltFree toUpperCase_ltFree
        del: regexMatchAll.simps(2))

lemma scan_section_hit:
  assumes "sectionParts w sp a k"
  shows "regexMatchAll sectionRegex (sectionText w sp a k @ rest)
           = (''section-'' @ w, a, k) # regexMatchAll sectionRegex rest"
proof -
  obtain c cs where c: "sectionText w sp a k @ rest = c # cs"
    by (simp add: sectionText_def)
  from sectionRegex_I [OF assms, of rest] have "sectionRegex (c # cs) = Some ((''section-'' @ w, a, k), rest)"
    unfolding c .
  from regexMatchAll_Cons_Some [OF consuming_sectionRegex this] show ?thesis
    unfolding c .
qed

lemma scan_section_tail:
  assumes "validKey k" "validKey ck"
  shows "regexMatchAll sectionRegex (linksEndMarker ck @ docEnd k) = []"
  using assms unfolding sectionRegex_eq
  by (simp add: docEnd_def linksEndMarker_def scan_rules validKey_ltFree toUpperCase_ltFree
        del: regexMatchAll.simps(2))

lemma sectionParts_category:
  assumes "validKey (key cat)" "accent cat \<noteq> []" "list_all isWord (accent cat)"
  shows "sectionParts (layoutWord (layout cat)) '' '' (accent cat) (key cat)"
  using assms layoutWord_word [of "layout cat"] validKey_quoteFree [of "key cat"]
  by (simp add: sectionParts_def validKey_def isSpace_def)

lemma scan_section_categoryDocument:
  assumes "validKey k" "validKey (key cat)" "accent cat \<noteq> []" "list_all isWord (accent cat)"
  shows "regexMatchAll sectionRegex (categoryDocument k cols cat)
           = [(layoutClassOf (layout cat), accent cat, key cat)]"
  unfolding categoryDocument_def
  by (simp only: scan_section_docBefore [OF assms(1)]
        scan_section_hit [OF sectionParts_category [OF assms(2,3,4)]]
        scan_section_catHeader scan_section_tail [OF assms(1,2)] layoutClassOf_word)

lemma scan_section_composedDocument:
  assumes "validKey k" "validKey (key cat)" "accent cat \<noteq> []" "list_all isWord (accent cat)"
    and "CHR ''<'' \<notin> set (url tab)" "CHR ''<'' \<notin> set (iconUrl tab)"
  shows "regexMatchAll sectionRegex (composedDocument k cols cat tab)
           = [(layoutClassOf (layout cat), accent cat, key cat)]"
proof -
  have i: "regexMatchAll sectionRegex (''\<newline>      '' @ x) = regexMatchAll sectionRegex x" for x
    by (rule scan_section_skip) simp
  show ?thesis
    unfolding composedDocument_shape
    by (simp only: scan_section_docBefore [OF assms(1)]
          scan_section_hit [OF sectionParts_category [OF assms(2,3,4)]]
          scan_section_catHeader scan_section_link [OF assms(5,6)] i
          scan_section_tail [OF assms(1,2)] layoutClassOf_word)
qed

lemma addCategory_gives_categoryDocument:
  assumes "validKey k" "validKey (key cat)" "containerKey cat = k"
  shows "addCategory cat \<lparr> content = ''\<newline>'' @ HTML_TEMPLATES_container k cols,
                            analyzer = ''\<newline>'' @ HTML_TEMPLATES_container k cols \<rparr>
     = (None, \<lparr> content = categoryDocument k cols cat, analyzer = categoryDocument k cols cat \<rparr>)"
  unfolding addCategory_after_container [OF assms]
  by (simp add: categoryDocument_def docBefore_def sectionText_def catHeader_def docEnd_def
        linksEndMarker_def layoutClassOf_word HTML_TEMPLATES_category_def assms(3))

lemma categoryExists_categoryDocument: "categoryExists (categoryDocument k cols cat) (key cat)"
  by (simp add: categoryExists_def categoryDocument_def sectionText_def includes_js_skip
        includes_js_Cons_iff)

lemma layout_categoryOfMatch:
  assumes "knownLayout lay"
  shows "layout (categoryOfMatch d (layoutClassOf lay, a, k)) = lay"
  using assms
  by (auto simp: knownLayout_def categoryOfMatch_def Let_def layoutClassOf_def includes_js_Cons_iff
        includes_js_def)

lemma keyChar_space: "keyChar c \<Longrightarrow> c \<noteq> CHR '' ''"
  by (auto simp: keyChar_def)

lemma validKey_spaceFree: "validKey k \<Longrightarrow> CHR '' '' \<notin> set k"
  using keyChar_space by (auto simp: validKey_def list_all_iff)

lemma toUpperCase_spaceFree: "validKey k \<Longrightarrow> CHR '' '' \<notin> set (toUpperCase k)"
  using toUpperCase_plain [of k] by (auto simp: validKey_def)

lemma prefix_linksEnd_no:
  assumes "CHR '' '' \<notin> set x"
    and "\<not> suffix ''_LINKS_END'' (takeWhile (\<lambda>c. c \<noteq> CHR '' '') t)"
  shows "prefix (x @ ''_LINKS_END -->'') t = False"
proof -
  have "suffix ''_LINKS_END'' (takeWhile (\<lambda>c. c \<noteq> CHR '' '') t)"
    if "prefix (x @ ''_LINKS_END -->'') t"
  proof -
    from that obtain z where "t = (x @ ''_LINKS_END'') @ CHR '' '' # (''-->'' @ z)"
      by (auto simp: prefix_def)
    moreover have "list_all (\<lambda>c. c \<noteq> CHR '' '') (x @ ''_LINKS_END'')"
      using assms(1) by (auto simp: list_all_iff)
    ultimately have "takeWhile (\<lambda>c. c \<noteq> CHR '' '') t = x @ ''_LINKS_END''"
      using takeWhile_stop [of "\<lambda>c. c \<noteq> CHR '' ''" "x @ ''_LINKS_END''" "CHR '' ''"] by simp
    then show ?thesis by (simp add: suffix_def)
  qed
  with assms(2) show ?thesis by blast
qed

lemma takeWhile_neq_skip:
  "c \<notin> set x \<Longrightarrow> takeWhile (\<lambda>a. a \<noteq> c) (x @ r) = x @ takeWhile (\<lambda>a. a \<noteq> c) r"
  by (induction x) auto

lemma layoutWord_ltFree: "CHR ''<'' \<notin> set (layoutWord lay)"
  by (simp add: layoutWord_def)

lemma linksEndMarker_first:
  assumes "validKey k" "validKey (key cat)" "list_all isWord (accent cat)"
  shows "indexOf (categoryDocument k cols cat) (linksEndMarker (key cat))
     = Some (length (docBefore k cols
          @ sectionText (layoutWord (layout cat)) '' '' (accent cat) (key cat) @ catHeader cat))"
proof -
  have "\<not> includes_js
      ((docBefore k cols @ sectionText (layoutWord (layout cat)) '' '' (accent cat) (key cat)
         @ catHeader cat) @ butlast (linksEndMarker (key cat)))
      (linksEndMarker (key cat))"
    using assms
    by (simp add: docBefore_def sectionText_def catHeader_def linksEndMarker_def includes_walk
          numberToString_ltFree validKey_ltFree toUpperCase_ltFree isWord_ltFree escapeHtml_ltFree
          layoutClassOf_ltFree contentClassOf_ltFree butlast_append layoutClassOf_word [symmetric]
          prefix_linksEnd_no toUpperCase_spaceFree validKey_spaceFree suffix_to_prefix
          takeWhile_neq_skip layoutWord_ltFree)
  moreover have "linksEndMarker (key cat) \<noteq> []"
    by (simp add: linksEndMarker_def)
  ultimately show ?thesis
    unfolding categoryDocument_def
    using indexOf_first [of "docBefore k cols
          @ sectionText (layoutWord (layout cat)) '' '' (accent cat) (key cat) @ catHeader cat"
        "linksEndMarker (key cat)" "docEnd k"]
    by simp
qed

lemma roundTripDocument_composed:
  assumes "validKey k" "validKey (key cat)" "containerKey cat = k"
    and "accent cat \<noteq> []" "list_all isWord (accent cat)" "knownLayout (layout cat)"
  shows "roundTripDocument k n cols cat tab = composedDocument k cols cat tab"
    and "fst (addContainer k n cols (newWikiContentManager [])) = None"
    and "fst (addCategory cat (snd (addContainer k n cols (newWikiContentManager [])))) = None"
    and "fst (addLinkToCategory tab (key cat)
           (snd (addCategory cat (snd (addContainer k n cols (newWikiContentManager [])))))) = None"
proof -
  let ?d = "categoryDocument k cols cat"
  let ?u = "docBefore k cols @ sectionText (layoutWord (layout cat)) '' '' (accent cat) (key cat)
              @ catHeader cat"
  have f: "find (\<lambda>c. key c = key cat) (extractCategories ?d)
      = Some (categoryOfMatch ?d (layoutClassOf (layout cat), accent cat, key cat))"
    unfolding extractCategories_def scan_section_categoryDocument [OF assms(1,2,4,5)]
    by (simp add: key_categoryOfMatch)
  have l: "addLinkToCategory tab (key cat) (newWikiContentManager ?d)
      = (None, \<lparr> content = take (length ?u) ?d @ HTML_TEMPLATES_link tab (layout cat)
                    @ ''\<newline>      '' @ drop (length ?u) ?d, analyzer = ?d \<rparr>)"
    using addLinkToCategory_at [OF categoryExists_categoryDocument f
        linksEndMarker_first [OF assms(1,2,5)], of tab]
    by (simp only: layout_categoryOfMatch [OF assms(6)])
  have td: "take (length ?u) ?d = ?u" "drop (length ?u) ?d = linksEndMarker (key cat) @ docEnd k"
    unfolding categoryDocument_def by simp_all
  have m1: "snd (addContainer k n cols (newWikiContentManager []))
      = \<lparr> content = ''\<newline>'' @ HTML_TEMPLATES_container k cols,
          analyzer = ''\<newline>'' @ HTML_TEMPLATES_container k cols \<rparr>"
    by (simp only: addContainer_empty snd_conv)
  have m2: "snd (addCategory cat (snd (addContainer k n cols (newWikiContentManager []))))
      = newWikiContentManager ?d"
    unfolding m1
    by (simp only: snd_conv addCategory_gives_categoryDocument [OF assms(1,2,3)]
          newWikiContentManager_def)
  show "roundTripDocument k n cols cat tab = composedDocument k cols cat tab"
    unfolding roundTripDocument_def m2 l td composedDocument_shape
    by (simp add: getContent_def)
  show "fst (addContainer k n cols (newWikiContentManager [])) = None"
    by (simp add: addContainer_empty)
  show "fst (addCategory cat (snd (addContainer k n cols (newWikiContentManager [])))) = None"
    unfolding m1
    by (simp only: fst_conv addCategory_gives_categoryDocument [OF assms(1,2,3)])
  show "fst (addLinkToCategory tab (key cat)
           (snd (addCategory cat (snd (addContainer k n cols (newWikiContentManager [])))))) = None"
    unfolding m2 l by simp
qed

lemma composedDocument_window:
  \<open>composedDocument k cols cat tab =
     beforeToken k cols cat @ sectionToken (key cat)
     @ (''>\<newline>''
        @ ''    <header class="'' @ layoutClassOf (layout cat) @ ''__header">\<newline>''
        @ ''      <div class="'' @ layoutClassOf (layout cat) @ ''__title">'' @ escapeHtml (name cat)
          @ ''</div>\<newline>''
        @ ''      <div class="'' @ layoutClassOf (layout cat) @ ''__meta">''
          @ escapeHtml (description cat) @ ''</div>\<newline>''
        @ ''    </header>\<newline>''
        @ ''    <div class="'' @ contentClassOf (layout cat) @ ''">\<newline>''
        @ ''      '' @ HTML_TEMPLATES_link tab (layout cat) @ ''\<newline>      ''
        @ linksEndMarker (key cat) @ docEnd k)\<close>
  by (simp add: composedDocument_def beforeToken_def sectionToken_def docBefore_def docEnd_def
        linksEndMarker_def)

lemma composedDocument_windowHead:
  \<open>drop (length (beforeToken k cols cat)) (composedDocument k cols cat tab) =
     windowHead cat
     @ (''\<newline>''
        @ ''    </header>\<newline>''
        @ ''    <div class="'' @ contentClassOf (layout cat) @ ''">\<newline>''
        @ ''      '' @ HTML_TEMPLATES_link tab (layout cat) @ ''\<newline>      ''
        @ linksEndMarker (key cat) @ docEnd k)\<close>
  unfolding composedDocument_window by (simp add: windowHead_def sectionToken_def)

lemma sectionToken_first:
  assumes "validKey k" "validKey (key cat)" \<open>CHR ''"'' \<notin> set (accent cat)\<close>
  shows "indexOf (composedDocument k cols cat tab) (sectionToken (key cat))
           = Some (length (beforeToken k cols cat))"
proof -
  have q: \<open>CHR ''"'' \<notin> set (key cat)\<close> \<open>CHR ''"'' \<notin> set k\<close>
    using assms(1,2) by (simp_all add: validKey_quoteFree)
  have "\<not> includes_js (beforeToken k cols cat @ butlast (sectionToken (key cat)))
      (sectionToken (key cat))"
  proof
    assume "includes_js (beforeToken k cols cat @ butlast (sectionToken (key cat)))
      (sectionToken (key cat))"
    then have \<open>includes_js (beforeToken k cols cat @ butlast (sectionToken (key cat)))
        (''id='' @ CHR ''"'' # key cat @ ''-section'' @ [CHR ''"''])\<close>
      by (simp add: sectionToken_def)
    then have "quotedAfter ''id='' (key cat) ''-section''
        (splitAtQuotes (beforeToken k cols cat @ butlast (sectionToken (key cat))))"
      using q(1) by (intro quotedAfter_occurrence) auto
    then show False
      using q assms(3)
      by (simp add: beforeToken_def docBefore_def sectionToken_def butlast_append
            numberToString_quoteFree layoutClassOf_quoteFree
            splitAtQuotes_splitAcc splitAcc_skip toUpperCase_quoteFree suffix_to_prefix)
  qed
  moreover have "sectionToken (key cat) \<noteq> []" by (simp add: sectionToken_def)
  ultimately show ?thesis
    unfolding composedDocument_window by (rule indexOf_first)
qed

lemma stripPrefix_same: "stripPrefix (x @ p) (x @ s) = stripPrefix p s"
  by (simp add: stripPrefix_def)

lemma divBody_hit:
  assumes "CHR ''<'' \<notin> set t" "e \<or> t \<noteq> []"
  shows "divBody e (t @ CHR ''<'' # CHR ''/'' # CHR ''d'' # CHR ''i'' # CHR ''v'' # CHR ''>'' # rest)
           = Some (t, rest)"
  using divBody_I [OF assms, of rest] by simp

lemmas exec_rules = exec_litThen_Cons exec_litThen_skip stripPrefix_Cons stripPrefix_Nil
  stripPrefix_Cons_Nil stripPrefix_same divBody_hit

lemma isWord_quote: \<open>list_all isWord a \<Longrightarrow> CHR ''"'' \<notin> set a\<close>
  using isWord_not_quote by (auto simp: list_all_iff)

lemma title_in_window:
  assumes "validKey (key cat)" "name cat \<noteq> []"
  shows "regexExec (titleRegex (layoutClassOf (layout cat))) (windowHead cat @ y)
           = Some (escapeHtml (name cat))"
proof -
  have "escapeHtml (name cat) \<noteq> []"
    using assms(2) by (cases "name cat") (auto simp: escapeHtml_Cons escapeChar_def)
  then show ?thesis
    using assms(1)
    unfolding titleRegex_def divTextRegex_eq
    by (simp add: windowHead_def exec_rules validKey_ltFree escapeHtml_ltFree layoutClassOf_ltFree
          del: regexExec.simps(2))
qed

lemma meta_in_window:
  assumes "validKey (key cat)"
  shows "regexExec (metaRegex (layoutClassOf (layout cat))) (windowHead cat @ y)
           = Some (escapeHtml (description cat))"
  using assms
  unfolding metaRegex_def divTextRegex_eq
  by (simp add: windowHead_def exec_rules validKey_ltFree escapeHtml_ltFree layoutClassOf_ltFree
        del: regexExec.simps(2))

lemma scan_container_hit:
  assumes "digits \<noteq> []" "list_all isDigit digits" "k \<noteq> []" \<open>CHR ''"'' \<notin> set k\<close>
  shows "regexMatchAll containerRegex (containerText digits k @ rest)
           = (digits, k) # regexMatchAll containerRegex rest"
proof -
  obtain c cs where c: "containerText digits k @ rest = c # cs"
    by (simp add: containerText_def)
  from containerRegex_I [OF assms, of rest] have "containerRegex (c # cs) = Some ((digits, k), rest)"
    unfolding c .
  from regexMatchAll_Cons_Some [OF consuming_containerRegex this] show ?thesis
    unfolding c .
qed

lemma numberToString_isDigit: "numberToString n \<noteq> [] \<and> list_all isDigit (numberToString n)"
proof (induction n rule: numberToString.induct)
  case (1 n)
  have d: "isDigit (digitChar m)" for m
    using nth_mem [of "m mod 10" "''0123456789''"] by (simp add: isDigit_def digitChar_def)
  show ?case
  proof (cases "n < 10")
    case True
    then show ?thesis using d [of n] by (subst (1 2) numberToString.simps) simp
  next
    case False
    then show ?thesis using 1 d [of "n mod 10"] by (subst (1 2) numberToString.simps) simp
  qed
qed

lemma digitValue_digitChar: "digitValue (digitChar d) = d mod 10"
proof -
  have "list_all (\<lambda>d. digitValue (digitChar d) = d) [0 ..< 10]"
    by code_simp
  then have "\<forall>d\<in>set [0 ..< 10]. digitValue (digitChar d) = d"
    unfolding list_all_iff .
  moreover have "d mod 10 \<in> set [0 ..< 10]" by simp
  ultimately have "digitValue (digitChar (d mod 10)) = d mod 10" by (rule bspec)
  then show ?thesis by (simp add: digitChar_def)
qed

lemma parseInt_snoc: "parseInt (ds @ [c]) = 10 * parseInt ds + digitValue c"
  by (simp add: parseInt_def)

lemma parseInt_numberToString: "parseInt (numberToString n) = n"
proof (induction n rule: numberToString.induct)
  case (1 n)
  show ?case
  proof (cases "n < 10")
    case True
    then show ?thesis
      by (subst numberToString.simps) (simp add: parseInt_def digitValue_digitChar)
  next
    case False
    then have "parseInt (numberToString n) = 10 * (n div 10) + n mod 10"
      using 1 by (subst numberToString.simps) (simp add: parseInt_snoc digitValue_digitChar)
    then show ?thesis by simp
  qed
qed

lemma composedDocument_container:
  "composedDocument k cols cat tab
     = ''\<newline>'' @ containerText (numberToString cols) k @ afterContainerTag k cat
       @ HTML_TEMPLATES_link tab (layout cat) @ ''\<newline>      ''
       @ linksEndMarker (key cat) @ docEnd k"
  by (simp add: composedDocument_def containerText_def afterContainerTag_def linksEndMarker_def
        docEnd_def)

lemma contentClassOf_not_container:
  "stripPrefix ''layout-container layout-'' (contentClassOf lay @ r) = None"
  by (simp add: contentClassOf_def stripPrefix_Cons)

lemma scan_container_after:
  assumes "validKey k" "validKey (key cat)" "list_all isWord (accent cat)"
  shows "regexMatchAll containerRegex (afterContainerTag k cat @ x) = regexMatchAll containerRegex x"
  using assms unfolding containerRegex_eq
  by (simp add: afterContainerTag_def scan_rules validKey_ltFree toUpperCase_ltFree isWord_ltFree
        escapeHtml_ltFree layoutClassOf_word layoutWord_ltFree contentClassOf_not_container
        contentClassOf_ltFree
        del: regexMatchAll.simps(2))

lemma scan_container_link:
  assumes "CHR ''<'' \<notin> set (url tab)" "CHR ''<'' \<notin> set (iconUrl tab)"
  shows "regexMatchAll containerRegex (HTML_TEMPLATES_link tab lay @ x) = regexMatchAll containerRegex x"
  using assms unfolding containerRegex_eq
  by (simp add: HTML_TEMPLATES_link_def scan_rules
        escapeHtml_ltFree encodeURIComponent_ltFree del: regexMatchAll.simps)

lemma scan_container_tail:
  assumes "validKey k" "validKey ck"
  shows "regexMatchAll containerRegex (''\<newline>      '' @ linksEndMarker ck @ docEnd k) = []"
  using assms unfolding containerRegex_eq
  by (simp add: docEnd_def linksEndMarker_def scan_rules validKey_ltFree toUpperCase_ltFree
        del: regexMatchAll.simps(2))

lemma scan_container_composedDocument:
  assumes "validKey k" "validKey (key cat)" "list_all isWord (accent cat)"
    and "CHR ''<'' \<notin> set (url tab)" "CHR ''<'' \<notin> set (iconUrl tab)"
  shows "regexMatchAll containerRegex (composedDocument k cols cat tab) = [(numberToString cols, k)]"
proof -
  have n: "regexMatchAll containerRegex (''\<newline>'' @ x) = regexMatchAll containerRegex x" for x
    unfolding containerRegex_eq by (simp add: scan_rules del: regexMatchAll.simps(2))
  have k: "k \<noteq> []" \<open>CHR ''"'' \<notin> set k\<close>
    using assms(1) validKey_quoteFree by (simp_all add: validKey_def)
  note d = numberToString_isDigit [of cols, THEN conjunct1]
    numberToString_isDigit [of cols, THEN conjunct2]
  show ?thesis
    unfolding composedDocument_container
    by (simp only: n scan_container_hit [OF d k] scan_container_after [OF assms(1,2,3)]
          scan_container_link [OF assms(4,5)] scan_container_tail [OF assms(1,2)])
qed

lemma toUpperChar_lt: "toUpperChar c = CHR ''<'' \<longleftrightarrow> c = CHR ''<''"
  by (rule toUpperChar_other) code_simp

lemma toUpperChar_bang: "toUpperChar c = CHR ''!'' \<longleftrightarrow> c = CHR ''!''"
  by (rule toUpperChar_other) code_simp

lemma commentRegex_needs_lt: "c \<noteq> CHR ''<'' \<Longrightarrow> commentRegex k (c # s) = None"
  using toUpperChar_lt [of c] toUpperChar_lt [of "CHR ''<''"]
  by (auto simp: commentRegex_def stripPrefixIgnoringCase_def)

lemma commentRegex_needs_bang:
  "c \<noteq> CHR ''!'' \<Longrightarrow> commentRegex k (CHR ''<'' # c # s) = None"
  using toUpperChar_bang [of c] toUpperChar_bang [of "CHR ''!''"]
  by (auto simp: commentRegex_def stripPrefixIgnoringCase_def)

lemma exec_comment_skip:
  "CHR ''<'' \<notin> set u \<Longrightarrow> regexExec (commentRegex k) (u @ s) = regexExec (commentRegex k) s"
  by (induction u) (auto simp: commentRegex_needs_lt)

lemma exec_comment_tag:
  "c \<noteq> CHR ''!'' \<Longrightarrow>
     regexExec (commentRegex k) (CHR ''<'' # c # s) = regexExec (commentRegex k) (c # s)"
  by (simp add: commentRegex_needs_bang)

lemma commentRegex_plain:
  "commentRegex k (''<!-- Container: '' @ k @ '' -->'' @ CHR 0x0A # r) = Some (None, [])"
proof -
  have n: "nameGroup ('' -->'' @ CHR 0x0A # r) = None"
    by (simp add: nameGroup_def isSpace_def isLineTerminator_def)
  have "stripPrefixIgnoringCase (''<!-- Container: '' @ k)
          ((''<!-- Container: '' @ k) @ '' -->'' @ CHR 0x0A # r) = Some ('' -->'' @ CHR 0x0A # r)"
    unfolding stripPrefixIgnoringCase_def by (simp only: take_length_append drop_length_append) simp
  then show ?thesis
    unfolding commentRegex_def using n by simp
qed

lemma exec_comment_composedDocument:
  assumes "validKey k"
  shows "regexExec (commentRegex k) (composedDocument k cols cat tab) = Some None"
proof -
  define u where \<open>u = ''iv class="layout-container layout-'' @ numberToString cols
      @ ''col" id="'' @ k @ ''-container">\<newline>  ''\<close>
  obtain r where doc: "composedDocument k cols cat tab
      = ''\<newline>'' @ (CHR ''<'' # CHR ''d'' # u @ ''<!-- Container: '' @ k @ '' -->'' @ CHR 0x0A # r)"
    by (simp add: composedDocument_def u_def)
  have lt: "CHR ''<'' \<notin> set (CHR ''d'' # u)"
    using assms by (simp add: u_def numberToString_ltFree validKey_ltFree)
  have "regexExec (commentRegex k) (''<!-- Container: '' @ k @ '' -->'' @ CHR 0x0A # r) = Some None"
    using commentRegex_plain [of k r] by (simp del: regexExec.simps add: regexExec_hit)
  then have "regexExec (commentRegex k)
      ((CHR ''d'' # u) @ ''<!-- Container: '' @ k @ '' -->'' @ CHR 0x0A # r) = Some None"
    by (simp only: exec_comment_skip [OF lt])
  then have "regexExec (commentRegex k)
      (CHR ''<'' # CHR ''d'' # u @ ''<!-- Container: '' @ k @ '' -->'' @ CHR 0x0A # r) = Some None"
    by (simp add: exec_comment_tag del: regexExec.simps)
  moreover have "regexExec (commentRegex k) (''\<newline>'' @ x) = regexExec (commentRegex k) x" for x
    by (rule exec_comment_skip) simp
  ultimately show ?thesis
    unfolding doc by (simp only:)
qed

lemma commentMatchOf_validKey:
  assumes "validKey k"
  shows "commentMatchOf compiled (composedDocument k cols cat tab) k = Inr None"
proof -
  have "\<not> patternSyntaxChar c" if "keyChar c" for c
  proof -
    have "list_all (\<lambda>c. \<not> patternSyntaxChar c) ''abcdefghijklmnopqrstuvwxyz0123456789_-''"
      by code_simp
    then show ?thesis using that unfolding list_all_iff keyChar_def by blast
  qed
  then have "\<not> list_ex patternSyntaxChar k"
    using assms by (auto simp: validKey_def list_all_iff list_ex_iff)
  then show ?thesis
    by (simp add: commentMatchOf_def exec_comment_composedDocument [OF assms])
qed

lemma extractContainers_composedDocument:
  assumes "validKey k" "validKey (key cat)" "list_all isWord (accent cat)"
    and "CHR ''<'' \<notin> set (url tab)" "CHR ''<'' \<notin> set (iconUrl tab)"
  shows "extractContainers compiled (composedDocument k cols cat tab)
     = Inr [\<lparr> key = k, name = capitalize k, columns = cols \<rparr>]"
  unfolding extractContainers_def scan_container_composedDocument [OF assms]
  by (simp add: parseInt_numberToString commentMatchOf_validKey [OF assms(1)] containerName_def)

lemma length_windowHead:
  "length (windowHead cat) =
     length (key cat) + 3 * length (layoutClassOf (layout cat))
     + length (escapeHtml (name cat)) + length (escapeHtml (description cat)) + 111"
  by (simp add: windowHead_def)

lemma categoryOfMatch_fields:
  "key (categoryOfMatch d (lc, a, k)) = k"
  "accent (categoryOfMatch d (lc, a, k)) = a"
  "name (categoryOfMatch d (lc, a, k))
     = (case regexExec (titleRegex lc) (lookAhead d k) of Some t \<Rightarrow> t | None \<Rightarrow> k)"
  "description (categoryOfMatch d (lc, a, k))
     = (case regexExec (metaRegex lc) (lookAhead d k) of Some t \<Rightarrow> t | None \<Rightarrow> [])"
  by (simp_all add: categoryOfMatch_def Let_def lookAhead_def sectionToken_def)

lemma window_composedDocument:
  assumes "validKey k" "validKey (key cat)" "list_all isWord (accent cat)"
    and "length (windowHead cat) \<le> 500"
  shows "\<exists>y. lookAhead (composedDocument k cols cat tab) (key cat) = windowHead cat @ y"
proof -
  obtain r where r: "drop (length (beforeToken k cols cat)) (composedDocument k cols cat tab)
      = windowHead cat @ r"
    using composedDocument_windowHead by blast
  have "substring (composedDocument k cols cat tab) (length (beforeToken k cols cat))
          (length (beforeToken k cols cat) + 500)
        = windowHead cat @ take (500 - length (windowHead cat)) r"
    unfolding substring_def using assms(4) by (simp add: r)
  then show ?thesis
    unfolding lookAhead_def sectionToken_first [OF assms(1,2) isWord_quote [OF assms(3)]] by simp
qed

lemma extractCategories_composedDocument:
  assumes "validKey k" "validKey (key cat)" "accent cat \<noteq> []" "list_all isWord (accent cat)"
    and "knownLayout (layout cat)" "name cat \<noteq> []"
    and "length (windowHead cat) \<le> 500"
    and "CHR ''<'' \<notin> set (url tab)" "CHR ''<'' \<notin> set (iconUrl tab)"
  shows "map (\<lambda>c. (key c, name c, description c, layout c, accent c))
           (extractCategories (composedDocument k cols cat tab))
         = [(key cat, escapeHtml (name cat), escapeHtml (description cat), layout cat, accent cat)]"
proof -
  obtain y where y: "lookAhead (composedDocument k cols cat tab) (key cat) = windowHead cat @ y"
    using window_composedDocument [OF assms(1,2,4,7)] by blast
  show ?thesis
    unfolding extractCategories_def scan_section_composedDocument [OF assms(1,2,3,4,8,9)]
    by (simp add: categoryOfMatch_fields layout_categoryOfMatch [OF assms(5)] y
          title_in_window [OF assms(2,6)] meta_in_window [OF assms(2)])
qed

text \<open>
  Where the round trip holds: for keys over the alphabet of the key derivation, the three
  layouts, an accent that is a non-empty word, a non-empty name, a section header that
  fits into the 500 characters the analyzer looks at, link addresses without \<open><\<close> and
  a column count that JavaScript holds exactly, the editor composes a Document from which
  the analyzer reads the container and the category back, the name and the description
  in their HTML-escaped form.
\<close>

lemma round_trip_recovers_escaped_text:
  assumes "validKey k" "validKey (key cat)" "containerKey cat = k"
    and "knownLayout (layout cat)" "accent cat \<noteq> []" "list_all isWord (accent cat)"
    and "name cat \<noteq> []"
    and "length (key cat) + 3 * length (layoutClassOf (layout cat))
           + length (escapeHtml (name cat)) + length (escapeHtml (description cat)) + 111 \<le> 500"
    and "CHR ''<'' \<notin> set (url tab)" "CHR ''<'' \<notin> set (iconUrl tab)"
    and "safeInteger cols"
  shows \<open>fst (addContainer k displayName cols (newWikiContentManager [])) = None
     \<and> fst (addCategory cat (snd (addContainer k displayName cols (newWikiContentManager [])))) = None
     \<and> fst (addLinkToCategory tab (key cat)
          (snd (addCategory cat (snd (addContainer k displayName cols (newWikiContentManager []))))))
         = None
     \<and> map (\<lambda>c. (key c, name c, description c, layout c, accent c))
          (extractCategories (roundTripDocument k displayName cols cat tab))
         = [(key cat, escapeHtml (name cat), escapeHtml (description cat), layout cat, accent cat)]
     \<and> extractContainers compiled (roundTripDocument k displayName cols cat tab)
         = Inr [\<lparr> key = k, name = capitalize k, columns = cols \<rparr>]\<close>
proof -
  note ops = roundTripDocument_composed [OF assms(1,2,3,5,6,4)]
  have w: "length (windowHead cat) \<le> 500"
    using assms(8) by (simp only: length_windowHead)
  show ?thesis
    unfolding ops extractCategories_composedDocument [OF assms(1,2,5,6,4,7) w assms(9,10)]
      extractContainers_composedDocument [OF assms(1,2,6,9,10)]
    by simp
qed

section \<open>Properties of the content editor and the renderer\<close>

text \<open>
  C4. Once \<open>addContainer\<close> has succeeded for a key (the bound analyzer did not find the
  key before), \<open>containerExists\<close> holds for that key on the resulting Document, through
  the Document itself and through the bound analyzer. A second \<open>addContainer\<close> with the
  same key throws the duplicate-key error and leaves the manager, hence the Document, as
  it was. This holds for every key string, valid or not.
\<close>

theorem addContainer_then_exists_and_duplicate_rejected:
  assumes "\<not> containerExists (analyzer m) k"
  shows "fst (addContainer k n c m) = None
       \<and> containerExists (getContent (snd (addContainer k n c m))) k
       \<and> containerExists (analyzer (snd (addContainer k n c m))) k
       \<and> addContainer k n' c' (snd (addContainer k n c m))
           = (Some (ContainerAlreadyExists k), snd (addContainer k n c m))"
  using assms containerExists_after_append
  by (simp add: addContainer_def Let_def getContent_def)

theorem addContainer_then_exists_and_duplicate_rejected_witness:
  "\<not> containerExists (analyzer (newWikiContentManager ''<br/>'')) ''my_links''
   \<and> fst (addContainer ''my_links'' ''My Links'' 2 (newWikiContentManager ''<br/>'')) = None
   \<and> containerExists
        (getContent (snd (addContainer ''my_links'' ''My Links'' 2 (newWikiContentManager ''<br/>''))))
        ''my_links''
   \<and> fst (addContainer ''my_links'' ''Again'' 3
            (snd (addContainer ''my_links'' ''My Links'' 2 (newWikiContentManager ''<br/>''))))
       = Some (ContainerAlreadyExists ''my_links'')
   \<and> getContent (snd (addContainer ''my_links'' ''Again'' 3
            (snd (addContainer ''my_links'' ''My Links'' 2 (newWikiContentManager ''<br/>'')))))
       = getContent (snd (addContainer ''my_links'' ''My Links'' 2 (newWikiContentManager ''<br/>'')))"
proof -
  have h: "\<not> containerExists (analyzer (newWikiContentManager ''<br/>'')) ''my_links''"
    by code_simp
  from addContainer_then_exists_and_duplicate_rejected [OF h, of "''My Links''" 2 "''Again''" 3]
  show ?thesis using h by simp
qed

text \<open>
  C5. Every throwing path of \<open>addContainer\<close>, \<open>addCategory\<close> and
  \<open>addLinkToCategory\<close> leaves the manager exactly as it was before the call, so the
  Document is unchanged byte for byte; and \<open>addCategory\<close> for a container the bound
  analyzer does not find always throws.
\<close>

theorem failing_operations_leave_document_unchanged:
  "(fst (addContainer k n c m) \<noteq> None \<longrightarrow> snd (addContainer k n c m) = m)
   \<and> (fst (addCategory cat m) \<noteq> None \<longrightarrow> snd (addCategory cat m) = m)
   \<and> (fst (addLinkToCategory tab ck m) \<noteq> None \<longrightarrow> snd (addLinkToCategory tab ck m) = m)
   \<and> (\<not> containerExists (analyzer m) (containerKey cat) \<longrightarrow>
        fst (addCategory cat m) \<noteq> None \<and> snd (addCategory cat m) = m)"
  by (simp add: addContainer_def addCategory_def addLinkToCategory_def Let_def
        split: option.splits)

theorem failing_operations_leave_document_unchanged_witness:
  \<open>fst (addContainer ''p'' ''P'' 2 (newWikiContentManager ''<div id="p-container">''))
      = Some (ContainerAlreadyExists ''p'')
   \<and> snd (addContainer ''p'' ''P'' 2 (newWikiContentManager ''<div id="p-container">''))
      = newWikiContentManager ''<div id="p-container">''
   \<and> fst (addCategory \<lparr> key = ''c1'', name = ''Cat'', description = ''d'', layout = ''cards'',
                          accent = ''blue'', containerKey = ''q'', column = 0 \<rparr>
            (newWikiContentManager ''<div id="p-container">''))
      = Some (ContainerDoesNotExist ''q'')
   \<and> snd (addCategory \<lparr> key = ''c1'', name = ''Cat'', description = ''d'', layout = ''cards'',
                          accent = ''blue'', containerKey = ''q'', column = 0 \<rparr>
            (newWikiContentManager ''<div id="p-container">''))
      = newWikiContentManager ''<div id="p-container">''
   \<and> fst (addLinkToCategory \<lparr> url = ''u'', title = ''t'', host = ''h'', iconUrl = ''i'' \<rparr> ''c1''
            (newWikiContentManager ''<div id="p-container">''))
      = Some (CategoryDoesNotExist ''c1'')
   \<and> snd (addLinkToCategory \<lparr> url = ''u'', title = ''t'', host = ''h'', iconUrl = ''i'' \<rparr> ''c1''
            (newWikiContentManager ''<div id="p-container">''))
      = newWikiContentManager ''<div id="p-container">''\<close>
proof -
  let ?m = \<open>newWikiContentManager ''<div id="p-container">''\<close>
  let ?cat = "\<lparr> key = ''c1'', name = ''Cat'', description = ''d'', layout = ''cards'',
                 accent = ''blue'', containerKey = ''q'', column = 0 \<rparr>"
  let ?tab = "\<lparr> url = ''u'', title = ''t'', host = ''h'', iconUrl = ''i'' \<rparr>"
  have a: "fst (addContainer ''p'' ''P'' 2 ?m) = Some (ContainerAlreadyExists ''p'')"
    by code_simp
  have b: "fst (addCategory ?cat ?m) = Some (ContainerDoesNotExist ''q'')"
    by code_simp
  have c: "fst (addLinkToCategory ?tab ''c1'' ?m) = Some (CategoryDoesNotExist ''c1'')"
    by code_simp
  from failing_operations_leave_document_unchanged [of "''p''" "''P''" 2 ?m ?cat ?tab "''c1''"]
  show ?thesis using a b c by simp
qed

text \<open>
  C8 (as amended). A successful \<open>addContainer\<close> appends to the Document: the old text is
  a prefix of the new one, the freshly rendered container block is its end, and what
  stands between them is two line breaks when the old Document is non-empty and does not
  end in a line break, and a single line break otherwise. In every case the block is
  preceded by a blank line. The key holds no character whose capital lies above 255 and
  the column count is one that JavaScript holds exactly, so that the rendered block is
  the one the code writes.
\<close>

theorem addContainer_appends_block:
  assumes "\<not> containerExists (analyzer m) k" and "upperCaseInRange k" and "safeInteger c"
  shows "getContent (snd (addContainer k n c m))
           = content m
             @ (if content m \<noteq> [] \<and> \<not> endsWith (content m) ''\<newline>''
                then ''\<newline>\<newline>'' else ''\<newline>'')
             @ HTML_TEMPLATES_container k c
       \<and> prefix (content m) (getContent (snd (addContainer k n c m)))
       \<and> suffix (HTML_TEMPLATES_container k c) (getContent (snd (addContainer k n c m)))
       \<and> precededByBlankLine (HTML_TEMPLATES_container k c)
            (getContent (snd (addContainer k n c m)))"
proof -
  let ?sep = "if content m \<noteq> [] \<and> \<not> endsWith (content m) ''\<newline>''
              then ''\<newline>\<newline>'' else ''\<newline>''"
  have eq: "getContent (snd (addContainer k n c m))
      = (content m @ ?sep) @ HTML_TEMPLATES_container k c"
    using assms(1) by (simp add: addContainer_def Let_def getContent_def)
  have blank: "endsInBlankLine (content m @ ?sep)"
  proof (cases "content m = []")
    case True
    then show ?thesis by (simp add: endsInBlankLine_def)
  next
    case False
    show ?thesis
    proof (cases "endsWith (content m) ''\<newline>''")
      case True
      then obtain u where "content m = u @ ''\<newline>''"
        using endsWith_D by blast
      then show ?thesis
        using True by (simp add: endsInBlankLine_def endsWith_def)
    next
      case False
      then show ?thesis
        using \<open>content m \<noteq> []\<close> by (simp add: endsInBlankLine_def endsWith_def)
    qed
  qed
  have "precededByBlankLine (HTML_TEMPLATES_container k c)
      ((content m @ ?sep) @ HTML_TEMPLATES_container k c)"
    unfolding precededByBlankLine_def using blank
    by (simp add: endsWith_def del: append_assoc)
  then show ?thesis
    unfolding eq by (simp add: suffix_def)
qed

theorem addContainer_appends_block_witness:
  "\<not> containerExists (analyzer (newWikiContentManager ''<br/>'')) ''p''
   \<and> getContent (snd (addContainer ''p'' ''P'' 2 (newWikiContentManager ''<br/>'')))
       = ''<br/>'' @ ''\<newline>\<newline>'' @ HTML_TEMPLATES_container ''p'' 2
   \<and> prefix ''<br/>'' (getContent (snd (addContainer ''p'' ''P'' 2 (newWikiContentManager ''<br/>''))))
   \<and> precededByBlankLine (HTML_TEMPLATES_container ''p'' 2)
        (getContent (snd (addContainer ''p'' ''P'' 2 (newWikiContentManager ''<br/>''))))"
proof -
  have h: "\<not> containerExists (analyzer (newWikiContentManager ''<br/>'')) ''p''"
    by code_simp
  have e: "\<not> endsWith ''<br/>'' ''\<newline>''"
    by code_simp
  have r: "upperCaseInRange ''p''" "safeInteger 2"
    by (simp_all add: upperCaseInRange_def safeInteger_def)
  from addContainer_appends_block [OF h r, of "''P''"]
  show ?thesis using h e by (auto simp: newWikiContentManager_def)
qed

text \<open>
  The claim as written fails on the empty Document and on a Document that already ends in
  a blank line: in both the specification expects no blank line before the block, and
  the block is preceded by one.
\<close>

theorem addContainer_blank_line_counterexample:
  "\<not> blankLineExpected []
   \<and> getContent (snd (addContainer ''p'' ''P'' 2 (newWikiContentManager [])))
       = ''\<newline>'' @ HTML_TEMPLATES_container ''p'' 2
   \<and> precededByBlankLine (HTML_TEMPLATES_container ''p'' 2)
        (getContent (snd (addContainer ''p'' ''P'' 2 (newWikiContentManager []))))
   \<and> \<not> blankLineExpected ''x\<newline>\<newline>''
   \<and> getContent (snd (addContainer ''p'' ''P'' 2 (newWikiContentManager ''x\<newline>\<newline>'')))
       = ''x\<newline>\<newline>\<newline>'' @ HTML_TEMPLATES_container ''p'' 2
   \<and> precededByBlankLine (HTML_TEMPLATES_container ''p'' 2)
        (getContent (snd (addContainer ''p'' ''P'' 2 (newWikiContentManager ''x\<newline>\<newline>''))))"
  by code_simp

text \<open>
  C9 (as amended). The renderer embeds every display text HTML-escaped, and the escaping
  is the character-wise replacement of \<open>&\<close>, \<open><\<close>, \<open>>\<close> and the double
  quote by their entities: the category name and description in the title and meta
  elements, the link title in the title element. The hostname is escaped in the same way.
  The URL and the icon URL are embedded as they were supplied, inside the \<open>href\<close> and
  \<open>src\<close> attributes. The container template takes no display text.
\<close>

theorem renderer_escapes_text_and_host:
  \<open>escapeHtml s = escapedText s
   \<and> includes_js (HTML_TEMPLATES_category cat lay)
        (''__title">'' @ escapedText (name cat) @ ''</div>'')
   \<and> includes_js (HTML_TEMPLATES_category cat lay)
        (''__meta">'' @ escapedText (description cat) @ ''</div>'')
   \<and> includes_js (HTML_TEMPLATES_link tab lay) (''title">'' @ escapedText (title tab) @ ''</'')
   \<and> includes_js (HTML_TEMPLATES_link tab lay) (''url">'' @ escapedText (host tab) @ ''</'')
   \<and> includes_js (HTML_TEMPLATES_link tab lay) (''href="'' @ url tab @ ''"'')
   \<and> includes_js (HTML_TEMPLATES_link tab lay) (''<img src="'' @ iconUrl tab @ ''"'')\<close>
  using escapeHtml_escapedText category_title category_meta link_title link_host link_url link_icon
  by blast

text \<open>
  The claim as written fails for the hostname: a hostname holding \<open><\<close> does not
  appear in the link as supplied, but escaped.
\<close>

theorem hostname_is_escaped_counterexample:
  \<open>\<not> includes_js
       (HTML_TEMPLATES_link \<lparr> url = ''u'', title = ''t'', host = ''a<b'', iconUrl = ''i'' \<rparr> ''cards'')
       ''a<b''
   \<and> includes_js
       (HTML_TEMPLATES_link \<lparr> url = ''u'', title = ''t'', host = ''a<b'', iconUrl = ''i'' \<rparr> ''cards'')
       ''a&lt;b''\<close>
  by code_simp

text \<open>
  C6. A container key with an underscore, as the key derivation produces for a name with
  a space: the editor creates the container \<open>my_links\<close> and a category in it, and
  \<open>findContainerForCategory\<close> then finds no owner, because the start-marker pattern
  stops the key at the first underscore.
\<close>

theorem findContainerForCategory_underscore_key:
  "fst (addCategory
          \<lparr> key = ''c1'', name = ''Cat'', description = ''d'', layout = ''cards'', accent = ''blue'',
            containerKey = ''my_links'', column = 0 \<rparr>
          (snd (addContainer ''my_links'' ''My Links'' 2 (newWikiContentManager [])))) = None
   \<and> findContainerForCategory
        (getContent (snd (addCategory
          \<lparr> key = ''c1'', name = ''Cat'', description = ''d'', layout = ''cards'', accent = ''blue'',
            containerKey = ''my_links'', column = 0 \<rparr>
          (snd (addContainer ''my_links'' ''My Links'' 2 (newWikiContentManager [])))))) ''c1''
      = None"
  by code_simp

text \<open>
  C7. \<open>addLinkToCategory\<close> succeeds and changes the Document, and the bound analyzer
  still holds the text from before the call.
\<close>

theorem addLinkToCategory_leaves_analyzer_stale:
  \<open>fst (addLinkToCategory \<lparr> url = ''u'', title = ''t'', host = ''h'', iconUrl = ''i'' \<rparr> ''c1''
          (newWikiContentManager
             ''<section class="section-card accent-blue" id="c1-section"><!-- C1_LINKS_END -->''))
     = None
   \<and> analyzer (snd (addLinkToCategory \<lparr> url = ''u'', title = ''t'', host = ''h'', iconUrl = ''i'' \<rparr> ''c1''
          (newWikiContentManager
             ''<section class="section-card accent-blue" id="c1-section"><!-- C1_LINKS_END -->'')))
     = ''<section class="section-card accent-blue" id="c1-section"><!-- C1_LINKS_END -->''
   \<and> getContent (snd (addLinkToCategory \<lparr> url = ''u'', title = ''t'', host = ''h'', iconUrl = ''i'' \<rparr> ''c1''
          (newWikiContentManager
             ''<section class="section-card accent-blue" id="c1-section"><!-- C1_LINKS_END -->'')))
     \<noteq> ''<section class="section-card accent-blue" id="c1-section"><!-- C1_LINKS_END -->''\<close>
  by code_simp

text \<open>
  C10 (as amended). The existence checks search for the key between \<open>id="\<close> and the closing
  \<open>-section"\<close> or \<open>-container"\<close>. On the category block and on the container
  block rendered for a key \<open>k2\<close>, both checks are false for every other key
  \<open>k1\<close>, in particular for a prefix or a suffix of \<open>k2\<close>, and true for
  \<open>k2\<close> itself where the block is of that kind. Keys and the accent hold no double
  quote.
\<close>

theorem existence_checks_are_delimiter_anchored:
  assumes \<open>CHR ''"'' \<notin> set k1\<close> \<open>CHR ''"'' \<notin> set k2\<close> \<open>CHR ''"'' \<notin> set (accent cat)\<close>
    and "key cat = k2" and "k1 \<noteq> k2"
  shows "\<not> categoryExists (HTML_TEMPLATES_category cat lay) k1
       \<and> \<not> containerExists (HTML_TEMPLATES_category cat lay) k1
       \<and> \<not> containerExists (HTML_TEMPLATES_container k2 cols) k1
       \<and> \<not> categoryExists (HTML_TEMPLATES_container k2 cols) k1
       \<and> categoryExists (HTML_TEMPLATES_category cat lay) k2
       \<and> containerExists (HTML_TEMPLATES_container k2 cols) k2"
  using assms categoryExists_only_own_key [of k1 cat lay] containerExists_category_block [of k1 cat lay]
    containerExists_only_own_key [of k1 k2 cols] categoryExists_container_block [of k1 k2 cols]
    categoryExists_own_key [of cat lay] containerExists_own_key [of k2 cols]
  by simp

theorem existence_checks_are_delimiter_anchored_witness:
  \<open>\<not> categoryExists
       (HTML_TEMPLATES_category
          \<lparr> key = ''dev_tools'', name = ''Dev Tools'', description = ''d'', layout = ''cards'',
            accent = ''blue'', containerKey = ''p'', column = 0 \<rparr> ''cards'') ''dev''
   \<and> \<not> categoryExists
       (HTML_TEMPLATES_category
          \<lparr> key = ''dev_tools'', name = ''Dev Tools'', description = ''d'', layout = ''cards'',
            accent = ''blue'', containerKey = ''p'', column = 0 \<rparr> ''cards'') ''tools''
   \<and> \<not> containerExists (HTML_TEMPLATES_container ''dev_tools'' 2) ''dev''
   \<and> \<not> containerExists (HTML_TEMPLATES_container ''dev_tools'' 2) ''tools''
   \<and> categoryExists
       (HTML_TEMPLATES_category
          \<lparr> key = ''dev_tools'', name = ''Dev Tools'', description = ''d'', layout = ''cards'',
            accent = ''blue'', containerKey = ''p'', column = 0 \<rparr> ''cards'') ''dev_tools''
   \<and> containerExists (HTML_TEMPLATES_container ''dev_tools'' 2) ''dev_tools''\<close>
proof -
  let ?cat = "\<lparr> key = ''dev_tools'', name = ''Dev Tools'', description = ''d'', layout = ''cards'',
                 accent = ''blue'', containerKey = ''p'', column = 0 \<rparr>"
  have a: "prefix ''dev'' ''dev_tools'' \<and> suffix ''tools'' ''dev_tools''"
    by (simp add: suffix_to_prefix)
  from existence_checks_are_delimiter_anchored [of "''dev''" "''dev_tools''" ?cat "''cards''" 2]
    existence_checks_are_delimiter_anchored [of "''tools''" "''dev_tools''" ?cat "''cards''" 2]
  show ?thesis by simp
qed

text \<open>
  The claim as written fails when the accent holds a double quote: the Renderer embeds
  the accent unescaped, so an accent can carry the \<open>id\<close> token of another key. Here
  the block rendered for \<open>dev_tools\<close> alone makes \<open>categoryExists\<close> hold for its
  prefix \<open>dev\<close>.
\<close>

theorem existence_check_quote_in_accent_counterexample:
  \<open>categoryExists
     (HTML_TEMPLATES_category
        \<lparr> key = ''dev_tools'', name = ''Dev Tools'', description = ''d'', layout = ''cards'',
          accent = ''x" id="dev-section'', containerKey = ''p'', column = 0 \<rparr> ''cards'')
     ''dev''\<close>
  by code_simp

text \<open>
  C2. In a Document where the analyzer derives a category with key \<open>k1\<close> and where
  the end-of-links marker of \<open>k1\<close> occurs, \<open>addLinkToCategory\<close> on a manager
  bound to that Document succeeds; the new content is the old one with the link fragment,
  rendered for the layout the analyzer derived for \<open>k1\<close>, and the indentation
  inserted at the first occurrence of the marker of \<open>k1\<close>. For every other valid key
  \<open>k2\<close> (so also when \<open>k1\<close> is a proper prefix of \<open>k2\<close>), no occurrence of
  the marker of \<open>k2\<close> starts at the insertion point or overlaps the marker the
  fragment was put before.
\<close>

theorem addLinkToCategory_inserts_before_own_marker:
  assumes "validKey k1" "validKey k2" "k1 \<noteq> k2"
    and "find (\<lambda>c. key c = k1) (extractCategories d) = Some cat"
    and "indexOf d (linksEndMarker k1) = Some p"
  shows "addLinkToCategory tab k1 (newWikiContentManager d)
           = (None, \<lparr> content = take p d @ HTML_TEMPLATES_link tab (layout cat) @ ''\<newline>      ''
                                   @ drop p d,
                      analyzer = d \<rparr>)
       \<and> prefix (linksEndMarker k1) (drop p d)
       \<and> \<not> prefix (linksEndMarker k2) (drop p d)
       \<and> (\<forall>q. prefix (linksEndMarker k2) (drop q d) \<longrightarrow>
              p + length (linksEndMarker k1) \<le> q \<or> q + length (linksEndMarker k2) \<le> p)"
proof -
  from assms(4) have "cat \<in> set (extractCategories d)" "key cat = k1"
    by (auto simp: find_Some_iff in_set_conv_nth)
  then have ex: "categoryExists d k1" using extractCategories_exists by blast
  have occ: "prefix (linksEndMarker k1) (drop p d)"
    using indexOf_SomeD [OF assms(5)] by simp
  have apart: "p + length (linksEndMarker k1) \<le> q \<or> q + length (linksEndMarker k2) \<le> p"
    if "prefix (linksEndMarker k2) (drop q d)" for q
    using markers_apart [OF assms(1,2,3) occ that] .
  have "\<not> prefix (linksEndMarker k2) (drop p d)"
    using apart [of p] by (auto simp: linksEndMarker_def)
  moreover have "addLinkToCategory tab k1 (newWikiContentManager d)
           = (None, \<lparr> content = take p d @ HTML_TEMPLATES_link tab (layout cat) @ ''\<newline>      ''
                                   @ drop p d,
                      analyzer = d \<rparr>)"
    using ex assms(4,5)
    by (simp add: addLinkToCategory_def newWikiContentManager_def linksEndMarker_def)
  ultimately show ?thesis using occ apart by blast
qed

theorem addLinkToCategory_inserts_before_own_marker_witness:
  "validKey ''dev'' \<and> validKey ''dev_tools'' \<and> strict_prefix ''dev'' ''dev_tools''
   \<and> find (\<lambda>c. key c = ''dev'') (extractCategories prefixKeysDocument)
       = Some \<lparr> key = ''dev'', name = ''dev'', description = [], layout = ''large'',
                 accent = ''blue'', containerKey = ''unknown'', column = 0 \<rparr>
   \<and> indexOf prefixKeysDocument (linksEndMarker ''dev'') = Some 155
   \<and> getContent (snd (addLinkToCategory \<lparr> url = ''u'', title = ''t'', host = ''h'', iconUrl = ''i'' \<rparr>
          ''dev'' (newWikiContentManager prefixKeysDocument)))
       = take 155 prefixKeysDocument
         @ HTML_TEMPLATES_link \<lparr> url = ''u'', title = ''t'', host = ''h'', iconUrl = ''i'' \<rparr> ''large''
         @ ''\<newline>      '' @ ''<!-- DEV_LINKS_END -->''
   \<and> \<not> prefix (linksEndMarker ''dev_tools'') (drop 155 prefixKeysDocument)"
proof -
  let ?cat = "\<lparr> key = ''dev'', name = ''dev'', description = [], layout = ''large'',
                 accent = ''blue'', containerKey = ''unknown'', column = 0 \<rparr>"
  have k: "validKey ''dev''" "validKey ''dev_tools''" "''dev'' \<noteq> ''dev_tools''"
    "strict_prefix ''dev'' ''dev_tools''"
    by (simp_all add: validKey_def keyChar_def strict_prefix_def)
  have f: "find (\<lambda>c. key c = ''dev'') (extractCategories prefixKeysDocument) = Some ?cat"
    by code_simp
  have i: "indexOf prefixKeysDocument (linksEndMarker ''dev'') = Some 155"
    by code_simp
  have d: "drop 155 prefixKeysDocument = ''<!-- DEV_LINKS_END -->''"
    by code_simp
  from addLinkToCategory_inserts_before_own_marker [OF k(1,2,3) f i]
  show ?thesis using k f i d by (simp add: getContent_def)
qed

text \<open>
  C1. The round trip through the renderer and the analyzer, for a category whose name
  holds an ampersand. From the empty Document the editor adds the container \<open>main\<close>,
  the category \<open>rd\<close> with the name \<open>R&D\<close> in it, and a link in the category; all three
  operations succeed. On the composed Document \<open>extractContainers\<close> returns the container
  with its key and column count, and \<open>extractCategories\<close> returns the category with its
  key, description, layout and accent, but with the name \<open>R&amp;D\<close>: the analyzer reads
  the escaped text of the title element and does not decode it.
\<close>

theorem round_trip_does_not_recover_name:
  \<open>fst (addContainer ''main'' ''Main'' 2 (newWikiContentManager [])) = None
   \<and> fst (addCategory
          \<lparr> key = ''rd'', name = ''R&D'', description = ''Lab'', layout = ''cards'',
            accent = ''blue'', containerKey = ''main'', column = 1 \<rparr>
          (snd (addContainer ''main'' ''Main'' 2 (newWikiContentManager [])))) = None
   \<and> fst (addLinkToCategory \<lparr> url = ''u'', title = ''t'', host = ''h'', iconUrl = ''i'' \<rparr> ''rd''
          (snd (addCategory
            \<lparr> key = ''rd'', name = ''R&D'', description = ''Lab'', layout = ''cards'',
              accent = ''blue'', containerKey = ''main'', column = 1 \<rparr>
            (snd (addContainer ''main'' ''Main'' 2 (newWikiContentManager [])))))) = None
   \<and> extractContainers compiled
        (roundTripDocument ''main'' ''Main'' 2
           \<lparr> key = ''rd'', name = ''R&D'', description = ''Lab'', layout = ''cards'',
             accent = ''blue'', containerKey = ''main'', column = 1 \<rparr>
           \<lparr> url = ''u'', title = ''t'', host = ''h'', iconUrl = ''i'' \<rparr>)
       = Inr [\<lparr> key = ''main'', name = ''Main'', columns = 2 \<rparr>]
   \<and> map (\<lambda>c. (key c, name c, description c, layout c, accent c))
        (extractCategories (roundTripDocument ''main'' ''Main'' 2
           \<lparr> key = ''rd'', name = ''R&D'', description = ''Lab'', layout = ''cards'',
             accent = ''blue'', containerKey = ''main'', column = 1 \<rparr>
           \<lparr> url = ''u'', title = ''t'', host = ''h'', iconUrl = ''i'' \<rparr>))
       = [(''rd'', ''R&amp;D'', ''Lab'', ''cards'', ''blue'')]\<close>
proof -
  let ?cat = "\<lparr> key = ''rd'', name = ''R&D'', description = ''Lab'', layout = ''cards'',
                 accent = ''blue'', containerKey = ''main'', column = 1 \<rparr>"
  let ?tab = "\<lparr> url = ''u'', title = ''t'', host = ''h'', iconUrl = ''i'' \<rparr>"
  have e: "escapeHtml ''R&D'' = ''R&amp;D''" "escapeHtml ''Lab'' = ''Lab''"
    by code_simp+
  have c: "capitalize ''main'' = ''Main''"
    by code_simp
  have k: "validKey ''main''" "validKey ''rd''" "list_all isWord ''blue''"
    by code_simp+
  have h: "validKey (key ?cat)" "containerKey ?cat = ''main''" "accent ?cat \<noteq> []"
    "list_all isWord (accent ?cat)" "knownLayout (layout ?cat)" "name ?cat \<noteq> []"
    "length (windowHead ?cat) \<le> 500"
    "CHR ''<'' \<notin> set (url ?tab)" "CHR ''<'' \<notin> set (iconUrl ?tab)"
    using k by (simp_all add: knownLayout_def length_windowHead layoutClassOf_def e)
  note ops = roundTripDocument_composed [OF k(1) h(1,2,3,4,5)]
  have cats: "map (\<lambda>c. (key c, name c, description c, layout c, accent c))
      (extractCategories (composedDocument ''main'' 2 ?cat ?tab))
      = [(''rd'', ''R&amp;D'', ''Lab'', ''cards'', ''blue'')]"
    using extractCategories_composedDocument [OF k(1) h(1,3,4,5,6,7,8,9), of 2] by (simp add: e)
  have conts: "extractContainers compiled (composedDocument ''main'' 2 ?cat ?tab)
      = Inr [\<lparr> key = ''main'', name = ''Main'', columns = 2 \<rparr>]"
    using extractContainers_composedDocument [OF k(1) h(1,4,8,9), of compiled 2] by (simp add: c)
  show ?thesis
    unfolding ops(1) using ops(2,3,4) cats conts by simp
qed

end
